theory Spec2Isabelle
  imports Complex_Main
begin

section \<open>Python strings\<close>

text \<open>
  A Python \<open>str\<close> is modelled as a \<open>string\<close>: a list of 8-bit characters, each read as
  the Unicode code point of the same number (U+0000 to U+00FF). Code points above
  U+00FF are outside the model. On that range \<open>str.isspace\<close>, \<open>str.lower\<close> and
  \<open>str.isalpha\<close> are the tables below.
\<close>

definition py_isspace :: "char \<Rightarrow> bool" where
  "py_isspace c \<longleftrightarrow>
     c \<in> {CHR 0x09, CHR 0x0A, CHR 0x0B, CHR 0x0C, CHR 0x0D, CHR 0x1C, CHR 0x1D, CHR 0x1E,
          CHR 0x1F, CHR 0x20, CHR 0x85, CHR 0xA0}"

definition str_strip :: "string \<Rightarrow> string" where
  \<comment> \<open>\<open>s.strip()\<close>\<close>
  "str_strip s = rev (dropWhile py_isspace (rev (dropWhile py_isspace s)))"

definition lstrip_chars :: "string \<Rightarrow> string \<Rightarrow> string" where
  \<comment> \<open>\<open>s.lstrip(chars)\<close>\<close>
  "lstrip_chars chars s = dropWhile (\<lambda>c. c \<in> set chars) s"

definition lower_char :: "char \<Rightarrow> char" where
  "lower_char c =
     (let n = (of_char c :: nat)
      in if (65 \<le> n \<and> n \<le> 90) \<or> (192 \<le> n \<and> n \<le> 222 \<and> n \<noteq> 215)
         then char_of (n + 32) else c)"

definition str_lower :: "string \<Rightarrow> string" where
  \<comment> \<open>\<open>s.lower()\<close>\<close>
  "str_lower s = map lower_char s"

definition endswith :: "string \<Rightarrow> string \<Rightarrow> bool" where
  \<comment> \<open>\<open>s.endswith(suffix)\<close>\<close>
  "endswith s suffix \<longleftrightarrow>
     length suffix \<le> length s \<and> drop (length s - length suffix) s = suffix"

definition ascii_alpha :: "char \<Rightarrow> bool" where
  \<comment> \<open>\<open>c.isascii() and c.isalpha()\<close>\<close>
  "ascii_alpha c \<longleftrightarrow>
     (let n = (of_char c :: nat) in (65 \<le> n \<and> n \<le> 90) \<or> (97 \<le> n \<and> n \<le> 122))"

definition ascii_digit :: "char \<Rightarrow> bool" where
  "ascii_digit c \<longleftrightarrow> (let n = (of_char c :: nat) in 48 \<le> n \<and> n \<le> 57)"

definition split_first :: "char \<Rightarrow> string \<Rightarrow> string \<times> string" where
  \<comment> \<open>\<open>s.split(c, 1)\<close> for a string \<open>s\<close> that contains \<open>c\<close>: the parts before and after
      the first \<open>c\<close>\<close>
  "split_first c s = (takeWhile (\<lambda>x. x \<noteq> c) s, tl (dropWhile (\<lambda>x. x \<noteq> c) s))"


section \<open>The standard library's URL parser\<close>

text \<open>
  \<open>urllib.parse.urlparse\<close> as CPython 3.11 defines it (\<open>urlsplit\<close>, \<open>_splitnetloc\<close>,
  \<open>_splitparams\<close>), for a \<open>str\<close> argument and the default arguments. It raises
  \<open>ValueError\<close> on a netloc with unbalanced or invalid brackets. The check of the text
  between the brackets (\<open>_check_bracketed_host\<close>, which parses an IP literal) is a
  parameter of the model. \<open>_checknetloc\<close> never raises on code points up to U+00FF, so it
  is left out.
\<close>

datatype error = ValueError | AttributeError | TypeError | RequestFailed string

record parse_result =
  scheme :: string
  netloc :: string
  path :: string
  url_params :: string
  query :: string
  fragment :: string

definition scheme_chars :: string where
  "scheme_chars =
     ''abcdefghijklmnopqrstuvwxyz'' @ ''ABCDEFGHIJKLMNOPQRSTUVWXYZ'' @ ''0123456789'' @ ''+-.''"

definition uses_params :: "string list" where
  "uses_params = ['''', ''ftp'', ''hdl'', ''prospero'', ''http'', ''imap'', ''https'', ''shttp'',
     ''rtsp'', ''rtsps'', ''rtspu'', ''sip'', ''sips'', ''mms'', ''sftp'', ''tel'']"

definition splitnetloc :: "string \<Rightarrow> string \<times> string" where
  \<comment> \<open>\<open>_splitnetloc(url, 2)\<close>: the domain runs from index 2 to the first of \<open>/?#\<close>\<close>
  "splitnetloc url =
     (takeWhile (\<lambda>c. c \<notin> set ''/?#'') (drop 2 url),
      dropWhile (\<lambda>c. c \<notin> set ''/?#'') (drop 2 url))"

definition splitparams :: "string \<Rightarrow> string \<times> string" where
  \<comment> \<open>\<open>_splitparams(url)\<close>: the parameters start at the first \<open>;\<close> of the last segment\<close>
  "splitparams url =
     (if CHR ''/'' \<in> set url then
        (let lastseg = rev (takeWhile (\<lambda>c. c \<noteq> CHR ''/'') (rev url));
             front = take (length url - length lastseg) url
         in if CHR '';'' \<in> set lastseg
            then (front @ takeWhile (\<lambda>c. c \<noteq> CHR '';'') lastseg,
                  tl (dropWhile (\<lambda>c. c \<noteq> CHR '';'') lastseg))
            else (url, ''''))
      else split_first CHR '';'' url)"

definition urlsplit :: "(string \<Rightarrow> bool) \<Rightarrow> string \<Rightarrow> error + parse_result" where
  "urlsplit bracketed_host_ok url0 =
     (let url1 = dropWhile (\<lambda>c. (of_char c :: nat) \<le> 32) url0;
          url2 = filter (\<lambda>c. c \<notin> {CHR 0x09, CHR 0x0D, CHR 0x0A}) url1;
          pre = takeWhile (\<lambda>c. c \<noteq> CHR '':'') url2;
          (sch, url3) =
             (if CHR '':'' \<in> set url2 \<and> pre \<noteq> [] \<and> ascii_alpha (hd url2)
                 \<and> (\<forall>c \<in> set pre. c \<in> set scheme_chars)
              then (str_lower pre, tl (dropWhile (\<lambda>c. c \<noteq> CHR '':'') url2))
              else ('''', url2));
          (nl, url4) = (if take 2 url3 = ''//'' then splitnetloc url3 else ('''', url3))
      in if take 2 url3 = ''//''
            \<and> ((CHR ''['' \<in> set nl \<and> CHR '']'' \<notin> set nl) \<or> (CHR '']'' \<in> set nl \<and> CHR ''['' \<notin> set nl))
         then Inl ValueError
         else if take 2 url3 = ''//'' \<and> CHR ''['' \<in> set nl \<and> CHR '']'' \<in> set nl
            \<and> \<not> bracketed_host_ok
                 (takeWhile (\<lambda>c. c \<noteq> CHR '']'') (tl (dropWhile (\<lambda>c. c \<noteq> CHR ''['') nl)))
         then Inl ValueError
         else
           (let (url5, frag) = (if CHR ''#'' \<in> set url4 then split_first CHR ''#'' url4 else (url4, ''''));
                (url6, qry) = (if CHR ''?'' \<in> set url5 then split_first CHR ''?'' url5 else (url5, ''''))
            in Inr \<lparr>scheme = sch, netloc = nl, path = url6, url_params = '''', query = qry,
                    fragment = frag\<rparr>))"

definition urlparse :: "(string \<Rightarrow> bool) \<Rightarrow> string \<Rightarrow> error + parse_result" where
  "urlparse bracketed_host_ok url =
     (case urlsplit bracketed_host_ok url of
        Inl e \<Rightarrow> Inl e
      | Inr r \<Rightarrow>
          if scheme r \<in> set uses_params \<and> CHR '';'' \<in> set (path r)
          then (let (u, p) = splitparams (path r) in Inr (r\<lparr>path := u, url_params := p\<rparr>))
          else Inr r)"


section \<open>The standard-library functions the model takes as parameters\<close>

text \<open>
  Three functions of the standard library are parameters: every theorem below holds
  whatever they compute.
  \<^item> \<open>parse_qs\<close>: \<open>urllib.parse.parse_qs\<close>, from a query string to the dictionary of its
    fields (it decodes percent escapes into arbitrary code points); the dictionary is
    the list of its items, looked up with \<open>map_of\<close>.
  \<^item> \<open>int_of_str\<close>: \<open>int(s)\<close>; \<open>None\<close> when it raises \<open>ValueError\<close>.
  \<^item> \<open>bracketed_host_ok\<close>: whether \<open>_check_bracketed_host\<close> returns without raising.
\<close>

record stdlib =
  parse_qs :: "string \<Rightarrow> (string \<times> string list) list"
  int_of_str :: "string \<Rightarrow> int option"
  bracketed_host_ok :: "string \<Rightarrow> bool"


section \<open>Identifier Resolver: \<open>extract_video_id_from_url\<close>\<close>

definition id_char :: "char \<Rightarrow> bool" where
  \<comment> \<open>the character class \<open>[A-Za-z0-9_-]\<close>\<close>
  "id_char c \<longleftrightarrow> ascii_alpha c \<or> ascii_digit c \<or> c = CHR ''_'' \<or> c = CHR ''-''"

fun search_id11 :: "string \<Rightarrow> string option" where
  \<comment> \<open>\<open>re.search(r"([A-Za-z0-9_-]{11})", s)\<close>: group 1 of the leftmost match\<close>
  "search_id11 [] = None"
| "search_id11 (c # cs) =
     (if 11 \<le> length (c # cs) \<and> list_all id_char (take 11 (c # cs))
      then Some (take 11 (c # cs)) else search_id11 cs)"

fun search_embed :: "string \<Rightarrow> string option" where
  \<comment> \<open>\<open>re.search(r"/embed/([A-Za-z0-9_-]{11})", s)\<close>: group 1 of the leftmost match\<close>
  "search_embed [] = None"
| "search_embed (c # cs) =
     (if take 7 (c # cs) = ''/embed/'' \<and> 18 \<le> length (c # cs)
         \<and> list_all id_char (take 11 (drop 7 (c # cs)))
      then Some (take 11 (drop 7 (c # cs))) else search_embed cs)"

definition extract_video_id_from_url :: "stdlib \<Rightarrow> string \<Rightarrow> string option" where
  "extract_video_id_from_url lib url =
     (case urlparse (bracketed_host_ok lib) url of
        Inl e \<Rightarrow> None
      | Inr parsed \<Rightarrow>
          if netloc parsed \<in> {''youtu.be''} then
            (let vid = lstrip_chars ''/'' (path parsed) in if vid = [] then None else Some vid)
          else
            (case (if endswith (netloc parsed) ''youtube.com'' then
                     (case map_of (parse_qs lib (query parsed)) ''v'' of
                        Some (v # vs) \<Rightarrow> Some v
                      | _ \<Rightarrow> search_embed (path parsed))
                   else None) of
               Some vid \<Rightarrow> Some vid
             | None \<Rightarrow> search_id11 url))"


section \<open>Parameter Normalizer: \<open>normalize_params\<close>\<close>

definition normalize_params :: "int option \<Rightarrow> string option \<Rightarrow> int \<times> string" where
  "normalize_params max_results order =
     (let mr = (case max_results of None \<Rightarrow> 20 | Some n \<Rightarrow> max 1 (min n 100));
          od = str_lower (case order of None \<Rightarrow> ''relevance''
                          | Some s \<Rightarrow> if s = [] then ''relevance'' else s);
          od = (if od \<notin> {''relevance'', ''time''} then ''relevance'' else od)
      in (mr, od))"


section \<open>Upstream responses: decoded JSON\<close>

text \<open>
  The values \<open>resp.json()\<close> returns. A float is \<open>nan\<close>, an infinity or a rational (every
  finite double is one); the program only tests floats for truth and compares them with
  an integer, which Python does exactly. A dictionary is the list of its items; a lookup
  takes the first item with the key.
\<close>

datatype pyfloat = Finite rat | PosInf | NegInf | NaN

datatype json =
    JNull
  | JBool bool
  | JInt int
  | JFloat pyfloat
  | JStr string
  | JArr "json list"
  | JObj "(string \<times> json) list"

fun truthy :: "json \<Rightarrow> bool" where
  \<comment> \<open>\<open>bool(v)\<close>\<close>
  "truthy JNull = False"
| "truthy (JBool b) = b"
| "truthy (JInt n) = (n \<noteq> 0)"
| "truthy (JFloat f) = (f \<noteq> Finite 0)"
| "truthy (JStr s) = (s \<noteq> [])"
| "truthy (JArr xs) = (xs \<noteq> [])"
| "truthy (JObj kvs) = (kvs \<noteq> [])"

definition py_or :: "json \<Rightarrow> json \<Rightarrow> json" where
  \<comment> \<open>\<open>a or b\<close>\<close>
  "py_or a b = (if truthy a then a else b)"

fun py_get :: "json \<Rightarrow> string \<Rightarrow> json \<Rightarrow> error + json" where
  \<comment> \<open>\<open>d.get(key, default)\<close>: only a dictionary has the method\<close>
  "py_get (JObj kvs) k dflt = Inr (case map_of kvs k of None \<Rightarrow> dflt | Some v \<Rightarrow> v)"
| "py_get _ k dflt = Inl AttributeError"

fun py_iter :: "json \<Rightarrow> error + json list" where
  \<comment> \<open>the values \<open>for x in v\<close> runs through: the elements of a list, the keys of a
      dictionary, the characters of a string\<close>
  "py_iter (JArr xs) = Inr xs"
| "py_iter (JObj kvs) = Inr (map (\<lambda>kv. JStr (fst kv)) kvs)"
| "py_iter (JStr s) = Inr (map (\<lambda>c. JStr [c]) s)"
| "py_iter _ = Inl TypeError"

fun py_len :: "json \<Rightarrow> error + int" where
  \<comment> \<open>\<open>len(v)\<close>\<close>
  "py_len (JArr xs) = Inr (int (length xs))"
| "py_len (JObj kvs) = Inr (int (length kvs))"
| "py_len (JStr s) = Inr (int (length s))"
| "py_len _ = Inl TypeError"

fun int_less :: "int \<Rightarrow> json \<Rightarrow> error + bool" where
  \<comment> \<open>\<open>k < v\<close> for an integer \<open>k\<close>\<close>
  "int_less k (JInt n) = Inr (k < n)"
| "int_less k (JBool b) = Inr (k < (if b then 1 else 0))"
| "int_less k (JFloat (Finite q)) = Inr (of_int k < q)"
| "int_less k (JFloat PosInf) = Inr True"
| "int_less k (JFloat NegInf) = Inr False"
| "int_less k (JFloat NaN) = Inr False"
| "int_less k _ = Inl TypeError"

definition bind_result :: "error + 'a \<Rightarrow> ('a \<Rightarrow> error + 'b) \<Rightarrow> error + 'b" where
  \<comment> \<open>sequencing: an exception raised by the first step skips the rest\<close>
  "bind_result m f = (case m of Inl e \<Rightarrow> Inl e | Inr x \<Rightarrow> f x)"


section \<open>Upstream Client: \<open>_http_get\<close>\<close>

text \<open>
  A call is the endpoint and the query parameters, in the order the program inserts
  them. The upstream is any function from the calls made so far (the last one is the
  call being answered) to a decoded response, or to the message of the exception
  \<open>requests.get\<close>, \<open>raise_for_status\<close> or \<open>resp.json\<close> raises. The program's state is
  the list of the calls it has made.
\<close>

record request =
  endpoint :: string
  params :: "(string \<times> json) list"

type_synonym upstream = "request list \<Rightarrow> string + json"

definition YOUTUBE_API_BASE :: string where
  "YOUTUBE_API_BASE = ''https://www.googleapis.com/youtube/v3''"

definition http_get ::
  "upstream \<Rightarrow> string \<Rightarrow> (string \<times> json) list \<Rightarrow> request list \<Rightarrow> (error + json) \<times> request list" where
  "http_get up ep ps calls =
     (let calls' = calls @ [\<lparr>endpoint = ep, params = ps\<rparr>]
      in (case up calls' of Inl msg \<Rightarrow> Inl (RequestFailed msg) | Inr data \<Rightarrow> Inr data, calls'))"


section \<open>Thread Aggregator: \<open>fetch_comment_threads\<close>\<close>

record comment =
  c_id :: json
  c_text :: json
  author :: json
  authorChannelId :: json
  publishedAt :: json
  updatedAt :: json
  likeCount :: json
  isReply :: bool
  parentId :: json

record thread =
  threadId :: json
  topLevelComment :: comment
  replyCount :: json
  replies :: "comment list"

record comment_page =
  videoId :: string
  nextPageToken :: json
  threads :: "thread list"

definition item_fields :: "json \<Rightarrow> error + json \<times> json \<times> comment" where
  \<comment> \<open>lines 87 to 102: \<open>thread_id\<close>, \<open>reply_count\<close> and \<open>top_comment\<close> of a thread item\<close>
  "item_fields item =
     bind_result (py_get item ''snippet'' (JObj [])) (\<lambda>snippet.
     bind_result (py_get snippet ''topLevelComment'' (JObj [])) (\<lambda>tlc.
     bind_result (py_get tlc ''snippet'' (JObj [])) (\<lambda>top.
     bind_result (py_get item ''id'' JNull) (\<lambda>thread_id.
     bind_result (py_get snippet ''totalReplyCount'' (JInt 0)) (\<lambda>reply_count.
     bind_result (py_get snippet ''topLevelComment'' (JObj [])) (\<lambda>tlc'.
     bind_result (py_get tlc' ''id'' JNull) (\<lambda>cid.
     bind_result (py_get top ''textDisplay'' JNull) (\<lambda>txt.
     bind_result (py_get top ''authorDisplayName'' JNull) (\<lambda>auth.
     bind_result (py_get top ''authorChannelId'' JNull) (\<lambda>aci.
     bind_result (py_get (py_or aci (JObj [])) ''value'' JNull) (\<lambda>chan.
     bind_result (py_get top ''publishedAt'' JNull) (\<lambda>pub.
     bind_result (py_get top ''updatedAt'' JNull) (\<lambda>upd.
     bind_result (py_get top ''likeCount'' (JInt 0)) (\<lambda>likes.
       Inr (thread_id, reply_count,
            \<lparr>c_id = cid, c_text = txt, author = auth, authorChannelId = chan,
             publishedAt = pub, updatedAt = upd, likeCount = likes, isReply = False,
             parentId = JNull\<rparr>)))))))))))))))"

definition reply_payload :: "json \<Rightarrow> error + comment" where
  \<comment> \<open>lines 109 to 121, and again lines 143 to 155: the normalised reply\<close>
  "reply_payload r =
     bind_result (py_get r ''snippet'' (JObj [])) (\<lambda>rs.
     bind_result (py_get r ''id'' JNull) (\<lambda>cid.
     bind_result (py_get rs ''textDisplay'' JNull) (\<lambda>txt.
     bind_result (py_get rs ''authorDisplayName'' JNull) (\<lambda>auth.
     bind_result (py_get rs ''authorChannelId'' JNull) (\<lambda>aci.
     bind_result (py_get (py_or aci (JObj [])) ''value'' JNull) (\<lambda>chan.
     bind_result (py_get rs ''publishedAt'' JNull) (\<lambda>pub.
     bind_result (py_get rs ''updatedAt'' JNull) (\<lambda>upd.
     bind_result (py_get rs ''likeCount'' (JInt 0)) (\<lambda>likes.
     bind_result (py_get rs ''parentId'' JNull) (\<lambda>par.
       Inr \<lparr>c_id = cid, c_text = txt, author = auth, authorChannelId = chan,
            publishedAt = pub, updatedAt = upd, likeCount = likes, isReply = True,
            parentId = par\<rparr>))))))))))"

fun append_replies :: "json list \<Rightarrow> comment list \<Rightarrow> error + comment list" where
  \<comment> \<open>\<open>for r in ...: replies_payload.append({...})\<close>\<close>
  "append_replies [] replies_payload = Inr replies_payload"
| "append_replies (r # rs) replies_payload =
     (case reply_payload r of
        Inl e \<Rightarrow> Inl e
      | Inr c \<Rightarrow> append_replies rs (replies_payload @ [c]))"

definition inline_replies_payload :: "json \<Rightarrow> error + comment list" where
  \<comment> \<open>lines 104 to 122: \<open>replies_payload\<close> after the loop over \<open>inline_replies\<close>\<close>
  "inline_replies_payload item =
     bind_result (py_get item ''replies'' JNull) (\<lambda>reps.
     bind_result (py_get (py_or reps (JObj [])) ''comments'' JNull) (\<lambda>comments.
     bind_result (py_iter (py_or comments (JArr []))) (\<lambda>inline_replies.
       append_replies inline_replies [])))"

definition need_fetch :: "bool \<Rightarrow> json \<Rightarrow> nat \<Rightarrow> error + bool" where
  \<comment> \<open>line 124: \<open>include_replies and reply_count and len(replies_payload) < reply_count\<close>\<close>
  "need_fetch include_replies reply_count n =
     (if include_replies \<and> truthy reply_count then int_less (int n) reply_count else Inr False)"

definition reply_params :: "string \<Rightarrow> json \<Rightarrow> int \<Rightarrow> json \<Rightarrow> (string \<times> json) list" where
  \<comment> \<open>lines 131 to 139: the parameters \<open>rp\<close> of a reply-listing call\<close>
  "reply_params api_key parent_id limit next_token =
     [(''part'', JStr ''snippet''), (''parentId'', parent_id), (''maxResults'', JInt limit),
      (''textFormat'', JStr ''plainText''), (''key'', JStr api_key)]
     @ (if truthy next_token then [(''pageToken'', next_token)] else [])"

definition read_batch :: "json \<Rightarrow> comment list \<Rightarrow> error + json \<times> comment list \<times> int \<times> json" where
  \<comment> \<open>lines 141 to 158: \<open>ritems\<close>, the extended \<open>replies_payload\<close>, \<open>len(ritems)\<close> and the
      new \<open>next_token\<close>\<close>
  "read_batch rdata replies_payload =
     bind_result (py_get rdata ''items'' (JArr [])) (\<lambda>ritems.
     bind_result (py_iter ritems) (\<lambda>rs.
     bind_result (append_replies rs replies_payload) (\<lambda>replies_payload'.
     bind_result (py_len ritems) (\<lambda>n.
     bind_result (py_get rdata ''nextPageToken'' JNull) (\<lambda>next_token.
       Inr (ritems, replies_payload', n, next_token))))))"

lemma append_replies_length:
  "append_replies rs replies_payload = Inr replies_payload' \<Longrightarrow>
   length replies_payload' = length replies_payload + length rs"
proof (induction rs arbitrary: replies_payload)
  case Nil
  then show ?case by simp
next
  case (Cons r rs)
  then show ?case by (auto split: sum.splits)
qed

lemma bind_result_eq_Inr:
  "bind_result m f = Inr y \<longleftrightarrow> (\<exists>x. m = Inr x \<and> f x = Inr y)"
  by (cases m) (simp_all add: bind_result_def)

lemma read_batch_Inr:
  "read_batch rdata replies_payload = Inr (ritems, replies_payload', n, next_token) \<longleftrightarrow>
     py_get rdata ''items'' (JArr []) = Inr ritems \<and>
     (\<exists>rs. py_iter ritems = Inr rs \<and> append_replies rs replies_payload = Inr replies_payload') \<and>
     py_len ritems = Inr n \<and>
     py_get rdata ''nextPageToken'' JNull = Inr next_token"
  by (auto simp: read_batch_def bind_result_eq_Inr)

lemma read_batch_progress:
  assumes "read_batch rdata replies_payload = Inr (ritems, replies_payload', n, next_token)"
    and "truthy ritems"
  shows "1 \<le> n"
proof -
  from assms(1) obtain rs where rs: "py_iter ritems = Inr rs"
      "append_replies rs replies_payload = Inr replies_payload'" "py_len ritems = Inr n"
    by (auto simp: read_batch_Inr)
  show ?thesis
  proof (cases ritems)
    case (JArr xs)
    with rs assms(2) show ?thesis by (cases xs) auto
  next
    case (JObj kvs)
    with rs assms(2) show ?thesis
      by (cases kvs) (auto simp: reply_payload_def bind_result_def)
  next
    case (JStr str)
    with rs assms(2) show ?thesis
      by (cases str) (auto simp: reply_payload_def bind_result_def)
  qed (use rs in auto)
qed

function reply_loop ::
  "upstream \<Rightarrow> string \<Rightarrow> json \<Rightarrow> int \<Rightarrow> int \<Rightarrow> json \<Rightarrow> comment list \<Rightarrow> request list
     \<Rightarrow> (error + comment list) \<times> request list" where
  \<comment> \<open>lines 129 to 160: the \<open>while\<close> loop, from its test on\<close>
  "reply_loop up api_key parent_id max_replies_per_thread fetched next_token replies_payload calls =
     (if fetched < max_replies_per_thread then
        (case http_get up (YOUTUBE_API_BASE @ ''/comments'')
                (reply_params api_key parent_id (min 100 (max_replies_per_thread - fetched)) next_token)
                calls of
           (Inl e, calls') \<Rightarrow> (Inl e, calls')
         | (Inr rdata, calls') \<Rightarrow>
             (case read_batch rdata replies_payload of
                Inl e \<Rightarrow> (Inl e, calls')
              | Inr (ritems, replies_payload', n, next_token') \<Rightarrow>
                  if \<not> truthy next_token' \<or> \<not> truthy ritems
                  then (Inr replies_payload', calls')
                  else reply_loop up api_key parent_id max_replies_per_thread (fetched + n)
                         next_token' replies_payload' calls'))
      else (Inr replies_payload, calls))"
  by pat_completeness auto
termination
proof (relation "measure (\<lambda>(up, api_key, parent_id, max_replies_per_thread, fetched, rest).
                            nat (max_replies_per_thread - fetched))")
  show "wf (measure (\<lambda>(up, api_key, parent_id, max_replies_per_thread, fetched, rest).
                       nat (max_replies_per_thread - fetched)))"
    by simp
next
  fix up :: upstream and api_key :: string and parent_id :: json
    and max_replies_per_thread fetched :: int and next_token :: json
    and replies_payload :: "comment list" and calls ya :: "request list"
    and x2 xb xc y xd ye xe z
  assume "fetched < max_replies_per_thread"
    and "read_batch x2 replies_payload = Inr xb"
    and "(xc, y) = xb" and "(xd, ye) = y" and "(xe, z) = ye"
    and "\<not> (\<not> truthy z \<or> \<not> truthy xc)"
  then have "1 \<le> xe"
    using read_batch_progress[of x2 replies_payload xc xd xe z] by auto
  then show "((up, api_key, parent_id, max_replies_per_thread, fetched + xe, z, xd, ya),
              (up, api_key, parent_id, max_replies_per_thread, fetched, next_token,
               replies_payload, calls))
             \<in> measure (\<lambda>(up, api_key, parent_id, max_replies_per_thread, fetched, rest).
                           nat (max_replies_per_thread - fetched))"
    using \<open>fetched < max_replies_per_thread\<close> by simp
qed

definition process_item ::
  "upstream \<Rightarrow> string \<Rightarrow> bool \<Rightarrow> int \<Rightarrow> json \<Rightarrow> request list \<Rightarrow> (error + thread) \<times> request list" where
  \<comment> \<open>lines 87 to 169: the body of \<open>for item in items\<close>\<close>
  "process_item up api_key include_replies max_replies_per_thread item calls =
     (case item_fields item of
        Inl e \<Rightarrow> (Inl e, calls)
      | Inr (thread_id, reply_count, top_comment) \<Rightarrow>
          (case inline_replies_payload item of
             Inl e \<Rightarrow> (Inl e, calls)
           | Inr replies_payload \<Rightarrow>
               (case need_fetch include_replies reply_count (length replies_payload) of
                  Inl e \<Rightarrow> (Inl e, calls)
                | Inr fetch \<Rightarrow>
                    (case (if fetch
                           then reply_loop up api_key (c_id top_comment) max_replies_per_thread
                                  0 JNull replies_payload calls
                           else (Inr replies_payload, calls)) of
                       (Inl e, calls') \<Rightarrow> (Inl e, calls')
                     | (Inr replies_payload', calls') \<Rightarrow>
                         (Inr \<lparr>threadId = thread_id, topLevelComment = top_comment,
                               replyCount = reply_count, replies = replies_payload'\<rparr>,
                          calls')))))"

fun process_items ::
  "upstream \<Rightarrow> string \<Rightarrow> bool \<Rightarrow> int \<Rightarrow> json list \<Rightarrow> thread list \<Rightarrow> request list
     \<Rightarrow> (error + thread list) \<times> request list" where
  \<comment> \<open>\<open>for item in items: ...; normalized_threads.append({...})\<close>\<close>
  "process_items up api_key include_replies max_replies_per_thread [] normalized_threads calls =
     (Inr normalized_threads, calls)"
| "process_items up api_key include_replies max_replies_per_thread (item # items)
     normalized_threads calls =
     (case process_item up api_key include_replies max_replies_per_thread item calls of
        (Inl e, calls') \<Rightarrow> (Inl e, calls')
      | (Inr t, calls') \<Rightarrow>
          process_items up api_key include_replies max_replies_per_thread items
            (normalized_threads @ [t]) calls')"

definition thread_params ::
  "string \<Rightarrow> string \<Rightarrow> int \<Rightarrow> string option \<Rightarrow> string \<Rightarrow> (string \<times> json) list" where
  \<comment> \<open>lines 68 to 77: the parameters of the thread-listing call\<close>
  "thread_params video_id api_key max_results page_token order =
     [(''part'', JStr ''snippet,replies''), (''videoId'', JStr video_id),
      (''maxResults'', JInt max_results), (''order'', JStr order),
      (''textFormat'', JStr ''plainText''), (''key'', JStr api_key)]
     @ (case page_token of
          None \<Rightarrow> []
        | Some t \<Rightarrow> if t \<noteq> [] then [(''pageToken'', JStr t)] else [])"

definition fetch_comment_threads ::
  "upstream \<Rightarrow> string \<Rightarrow> string \<Rightarrow> int \<Rightarrow> string option \<Rightarrow> string \<Rightarrow> bool \<Rightarrow> int \<Rightarrow> request list
     \<Rightarrow> (error + comment_page) \<times> request list" where
  "fetch_comment_threads up video_id api_key max_results page_token order include_replies
     max_replies_per_thread calls =
     (case http_get up (YOUTUBE_API_BASE @ ''/commentThreads'')
             (thread_params video_id api_key max_results page_token order) calls of
        (Inl e, calls') \<Rightarrow> (Inl e, calls')
      | (Inr data, calls') \<Rightarrow>
          (case bind_result (py_get data ''items'' (JArr [])) (\<lambda>items.
                bind_result (py_get data ''nextPageToken'' JNull) (\<lambda>next_page_token.
                bind_result (py_iter items) (\<lambda>items'. Inr (next_page_token, items')))) of
             Inl e \<Rightarrow> (Inl e, calls')
           | Inr (next_page_token, items) \<Rightarrow>
               (case process_items up api_key include_replies max_replies_per_thread items []
                       calls' of
                  (Inl e, calls'') \<Rightarrow> (Inl e, calls'')
                | (Inr normalized_threads, calls'') \<Rightarrow>
                    (Inr \<lparr>videoId = video_id, nextPageToken = next_page_token,
                          threads = normalized_threads\<rparr>,
                     calls''))))"


section \<open>Request Handler: \<open>_parse_query\<close>, \<open>get_env_api_key\<close>, \<open>do_GET\<close>\<close>

record query_params =
  q_url :: string
  q_videoId :: string
  q_pageToken :: "string option"
  q_order :: "string option"
  q_includeReplies :: bool
  q_maxResults :: "int option"
  q_maxRepliesPerThread :: int

definition get_one :: "(string \<times> string list) list \<Rightarrow> string \<Rightarrow> string" where
  \<comment> \<open>\<open>v = qs.get(name); return v[0] if v else ""\<close>\<close>
  "get_one qs name = (case map_of qs name of Some (v # vs) \<Rightarrow> v | _ \<Rightarrow> [])"

definition or_none :: "string \<Rightarrow> string option" where
  \<comment> \<open>\<open>s or None\<close>\<close>
  "or_none s = (if s = [] then None else Some s)"

definition parse_query :: "stdlib \<Rightarrow> string \<Rightarrow> error + query_params" where
  \<comment> \<open>\<open>_parse_query\<close>; the dictionary's entries are evaluated in the order written, so
      the two \<open>int(...)\<close> come last\<close>
  "parse_query lib request_path =
     (case urlparse (bracketed_host_ok lib) request_path of
        Inl e \<Rightarrow> Inl e
      | Inr parsed \<Rightarrow>
          (let qs = parse_qs lib (query parsed) in
           bind_result
             (if get_one qs ''maxResults'' \<noteq> [] then
                (case int_of_str lib (get_one qs ''maxResults'') of
                   None \<Rightarrow> Inl ValueError
                 | Some n \<Rightarrow> Inr (Some n))
              else Inr None) (\<lambda>max_results.
           bind_result
             (if get_one qs ''maxRepliesPerThread'' \<noteq> [] then
                (case int_of_str lib (get_one qs ''maxRepliesPerThread'') of
                   None \<Rightarrow> Inl ValueError
                 | Some n \<Rightarrow> Inr n)
              else Inr 20) (\<lambda>max_replies.
             Inr \<lparr>q_url = str_strip (get_one qs ''url''),
                  q_videoId = str_strip (get_one qs ''videoId''),
                  q_pageToken = or_none (str_strip (get_one qs ''pageToken'')),
                  q_order = or_none (str_strip (get_one qs ''order'')),
                  q_includeReplies =
                    (str_lower (get_one qs ''includeReplies'') \<in> {''1'', ''true'', ''yes'', ''on''}),
                  q_maxResults = max_results,
                  q_maxRepliesPerThread = max_replies\<rparr>))))"

definition get_env_api_key :: "(string \<Rightarrow> string option) \<Rightarrow> string + string" where
  \<comment> \<open>\<open>Inl\<close>: the message of the \<open>RuntimeError\<close>\<close>
  "get_env_api_key environ =
     (let api_key = str_strip (case environ ''YOUTUBE_API_KEY'' of None \<Rightarrow> [] | Some v \<Rightarrow> v)
      in if api_key = []
         then Inl ''YOUTUBE_API_KEY environment variable is required to fetch YouTube comments.''
         else Inr api_key)"

datatype response_body =
    ErrorBody string
  | ErrorDetails string error
  | PageBody comment_page

record response =
  status :: nat
  body :: response_body

definition do_GET ::
  "stdlib \<Rightarrow> (string \<Rightarrow> string option) \<Rightarrow> upstream \<Rightarrow> string \<Rightarrow> response \<times> request list" where
  \<comment> \<open>the response \<open>_send\<close> writes, and the upstream calls made; \<open>ErrorDetails\<close> carries the
      exception whose \<open>str\<close> is the \<open>details\<close> field\<close>
  "do_GET lib environ up request_path =
     (case parse_query lib request_path of
        Inl ex \<Rightarrow> (\<lparr>status = 500, body = ErrorDetails ''Internal server error'' ex\<rparr>, [])
      | Inr q \<Rightarrow>
          (let video_id = q_videoId q;
               video_id =
                 (if video_id = [] \<and> q_url q \<noteq> [] then
                    (case extract_video_id_from_url lib (q_url q) of
                       None \<Rightarrow> []
                     | Some v \<Rightarrow> v)
                  else video_id)
           in if video_id = [] then
                (\<lparr>status = 400,
                  body = ErrorBody ''Missing 'videoId' or parsable 'url' query param.''\<rparr>, [])
              else
                (case get_env_api_key environ of
                   Inl msg \<Rightarrow> (\<lparr>status = 500, body = ErrorBody msg\<rparr>, [])
                 | Inr api_key \<Rightarrow>
                     (let (max_results, order) = normalize_params (q_maxResults q) (q_order q) in
                      case fetch_comment_threads up video_id api_key max_results (q_pageToken q)
                             order (q_includeReplies q) (q_maxRepliesPerThread q) [] of
                        (Inl ex, calls) \<Rightarrow>
                          (\<lparr>status = 500, body = ErrorDetails ''Internal server error'' ex\<rparr>,
                           calls)
                      | (Inr data, calls) \<Rightarrow> (\<lparr>status = 200, body = PageBody data\<rparr>, calls)))))"


section \<open>Observing a run\<close>

text \<open>
  The functions of this section are not part of the program: the theorems use them to
  speak about the calls a run made and the responses it got.
\<close>

fun responses :: "upstream \<Rightarrow> request list \<Rightarrow> request list \<Rightarrow> (string + json) list" where
  \<comment> \<open>the responses to the calls \<open>reqs\<close>, made one after the other after the calls \<open>calls\<close>\<close>
  "responses up calls [] = []"
| "responses up calls (r # reqs) = up (calls @ [r]) # responses up (calls @ [r]) reqs"

definition batch_replies :: "string + json \<Rightarrow> comment list" where
  \<comment> \<open>the normalised replies of a reply-listing response\<close>
  "batch_replies resp =
     (case resp of
        Inl msg \<Rightarrow> []
      | Inr rdata \<Rightarrow>
          (case read_batch rdata [] of
             Inl e \<Rightarrow> []
           | Inr (ritems, replies_payload, n, next_token) \<Rightarrow> replies_payload))"

definition batch_size :: "string + json \<Rightarrow> int" where
  "batch_size resp = int (length (batch_replies resp))"

definition batch_token :: "string + json \<Rightarrow> json" where
  \<comment> \<open>the continuation token of a response\<close>
  "batch_token resp =
     (case resp of
        Inl msg \<Rightarrow> JNull
      | Inr rdata \<Rightarrow> (case py_get rdata ''nextPageToken'' JNull of Inl e \<Rightarrow> JNull | Inr t \<Rightarrow> t))"

definition requested :: "request \<Rightarrow> json" where
  \<comment> \<open>the \<open>maxResults\<close> parameter of a call\<close>
  "requested req = (case map_of (params req) ''maxResults'' of None \<Rightarrow> JNull | Some v \<Rightarrow> v)"


fun expected_limits :: "int \<Rightarrow> int \<Rightarrow> int list \<Rightarrow> json list" where
  \<comment> \<open>the batch sizes a loop with budget \<open>m\<close> asks for, when it has fetched \<open>fetched\<close> replies
      and the coming batches have the sizes given\<close>
  "expected_limits m fetched [] = []"
| "expected_limits m fetched (n # ns) =
     JInt (min 100 (m - fetched)) # expected_limits m (fetched + n) ns"

definition stop_rule :: "int \<Rightarrow> int \<Rightarrow> string + json \<Rightarrow> bool" where
  \<comment> \<open>after a batch: the budget is reached, or the response has no continuation token, or
      the batch is empty\<close>
  "stop_rule m fetched resp \<longleftrightarrow>
     m \<le> fetched + batch_size resp \<or> \<not> truthy (batch_token resp) \<or> batch_size resp = 0"

fun stops_exactly :: "int \<Rightarrow> int \<Rightarrow> (string + json) list \<Rightarrow> bool" where
  \<comment> \<open>the loop made no call because the budget was spent on entry, or the last batch is
      the first one the stop rule holds for\<close>
  "stops_exactly m fetched [] = (\<not> fetched < m)"
| "stops_exactly m fetched [resp] = (fetched < m \<and> stop_rule m fetched resp)"
| "stops_exactly m fetched (resp # resp' # resps) =
     (fetched < m \<and> \<not> stop_rule m fetched resp
      \<and> stops_exactly m (fetched + batch_size resp) (resp' # resps))"

definition thread_items :: "string + json \<Rightarrow> json list" where
  \<comment> \<open>the thread items of a thread-listing response\<close>
  "thread_items resp =
     (case resp of
        Inl msg \<Rightarrow> []
      | Inr data \<Rightarrow>
          (case bind_result (py_get data ''items'' (JArr [])) py_iter of
             Inl e \<Rightarrow> []
           | Inr items \<Rightarrow> items))"

definition thread_request :: "string \<Rightarrow> string \<Rightarrow> int \<Rightarrow> string option \<Rightarrow> string \<Rightarrow> request" where
  \<comment> \<open>the thread-listing call\<close>
  "thread_request video_id api_key max_results page_token order =
     \<lparr>endpoint = YOUTUBE_API_BASE @ ''/commentThreads'',
      params = thread_params video_id api_key max_results page_token order\<rparr>"

definition reply_request :: "string \<Rightarrow> json \<Rightarrow> int \<Rightarrow> json \<Rightarrow> request" where
  \<comment> \<open>a reply-listing call\<close>
  "reply_request api_key parent_id limit next_token =
     \<lparr>endpoint = YOUTUBE_API_BASE @ ''/comments'',
      params = reply_params api_key parent_id limit next_token\<rparr>"

definition field :: "(string \<times> json) list \<Rightarrow> string \<Rightarrow> json \<Rightarrow> json" where
  \<comment> \<open>the value a dictionary has for a key, or the default when the key is missing\<close>
  "field kvs k dflt = (case map_of kvs k of None \<Rightarrow> dflt | Some v \<Rightarrow> v)"

definition first_path_segment :: "string \<Rightarrow> string" where
  \<comment> \<open>the spec's words: the first path segment, stripped of its leading slash\<close>
  "first_path_segment p =
     takeWhile (\<lambda>c. c \<noteq> CHR ''/'') (case p of [] \<Rightarrow> [] | c # cs \<Rightarrow> if c = CHR ''/'' then cs else p)"


section \<open>Stand-ins for the examples\<close>

text \<open>
  The examples need values for the parameters. \<open>parse_qs_plain\<close> is \<open>parse_qs\<close> of
  CPython 3.11 with its defaults, on a query string without percent escapes (it turns
  \<open>+\<close> into a space and decodes nothing else). \<open>int_plain\<close> reads an optional sign and
  ASCII digits, and is \<open>int\<close> on the strings it accepts and on the strings of the examples
  it rejects. No example has a bracket in a URL, so the third parameter is never
  consulted.
\<close>

fun split_on :: "char \<Rightarrow> string \<Rightarrow> string list" where
  \<comment> \<open>\<open>s.split(c)\<close>\<close>
  "split_on c [] = [[]]"
| "split_on c (x # xs) =
     (if x = c then [] # split_on c xs
      else (case split_on c xs of [] \<Rightarrow> [[x]] | y # ys \<Rightarrow> (x # y) # ys))"

definition unquote_plus_plain :: "string \<Rightarrow> string" where
  "unquote_plus_plain s = map (\<lambda>c. if c = CHR ''+'' then CHR '' '' else c) s"

definition parse_qsl_plain :: "string \<Rightarrow> (string \<times> string) list" where
  "parse_qsl_plain qs =
     (if qs = [] then []
      else concat (map (\<lambda>name_value.
             if name_value \<noteq> [] then
               (let name = takeWhile (\<lambda>c. c \<noteq> CHR ''='') name_value;
                    v = drop 1 (dropWhile (\<lambda>c. c \<noteq> CHR ''='') name_value)
                in if v \<noteq> [] then [(unquote_plus_plain name, unquote_plus_plain v)] else [])
             else []) (split_on CHR ''&'' qs)))"

fun add_field :: "string \<times> string \<Rightarrow> (string \<times> string list) list \<Rightarrow> (string \<times> string list) list" where
  \<comment> \<open>\<open>parsed_result[name].append(value)\<close> if the name is there, else
      \<open>parsed_result[name] = [value]\<close>\<close>
  "add_field (name, v) [] = [(name, [v])]"
| "add_field (name, v) ((k, vs) # d) =
     (if k = name then (k, vs @ [v]) # d else (k, vs) # add_field (name, v) d)"

definition parse_qs_plain :: "string \<Rightarrow> (string \<times> string list) list" where
  "parse_qs_plain qs = foldl (\<lambda>d nv. add_field nv d) [] (parse_qsl_plain qs)"

definition int_plain :: "string \<Rightarrow> int option" where
  "int_plain s =
     (let (neg, ds) =
            (case s of
               [] \<Rightarrow> (False, [])
             | c # cs \<Rightarrow> if c = CHR ''-'' then (True, cs)
                        else if c = CHR ''+'' then (False, cs) else (False, s))
      in if ds \<noteq> [] \<and> list_all ascii_digit ds
         then Some ((if neg then - 1 else 1)
                    * foldl (\<lambda>a c. 10 * a + (of_char c - 48)) 0 ds)
         else None)"

definition plain_lib :: stdlib where
  "plain_lib =
     \<lparr>parse_qs = parse_qs_plain, int_of_str = int_plain, bracketed_host_ok = (\<lambda>h. True)\<rparr>"

definition demo_reply :: "nat \<Rightarrow> json" where
  \<comment> \<open>reply number \<open>i\<close> of the example thread, with the id \<open>r00\<close>, \<open>r01\<close>, ...\<close>
  "demo_reply i =
     JObj [(''id'', JStr (''r'' @ [''0123456789'' ! (i div 10), ''0123456789'' ! (i mod 10)])),
           (''snippet'', JObj [(''textDisplay'', JStr ''reply''), (''parentId'', JStr ''c1''),
                              (''likeCount'', JInt (int i))])]"

definition demo_thread :: "nat \<Rightarrow> nat \<Rightarrow> json" where
  \<comment> \<open>a thread item that reports \<open>n_total\<close> replies and carries the first \<open>inline\<close> of them\<close>
  "demo_thread n_total inline =
     JObj [(''id'', JStr ''t1''),
           (''snippet'', JObj [(''totalReplyCount'', JInt (int n_total)),
              (''topLevelComment'', JObj [(''id'', JStr ''c1''),
                 (''snippet'', JObj [(''textDisplay'', JStr ''top'')])])]),
           (''replies'', JObj [(''comments'', JArr (map demo_reply [0..<inline]))])]"

definition demo_upstream :: "nat \<Rightarrow> nat \<Rightarrow> nat \<Rightarrow> upstream" where
  \<comment> \<open>an upstream with one thread of \<open>n_total\<close> replies, \<open>inline\<close> of them inline; it lists
      the replies from the first on, in pages of at most \<open>page\<close> items and at most the
      number asked for, with a continuation token while replies remain\<close>
  "demo_upstream n_total inline page calls =
     (case rev calls of
        [] \<Rightarrow> Inl ''no call''
      | req # earlier \<Rightarrow>
          if endpoint req = YOUTUBE_API_BASE @ ''/commentThreads''
          then Inr (JObj [(''items'', JArr [demo_thread n_total inline])])
          else
            (let served = sum_list (map (\<lambda>r. case requested r of JInt k \<Rightarrow> min (nat k) page | _ \<Rightarrow> 0)
                            (filter (\<lambda>r. endpoint r = YOUTUBE_API_BASE @ ''/comments'') earlier));
                 n = (case requested req of JInt k \<Rightarrow> min (min (nat k) page) (n_total - served) | _ \<Rightarrow> 0)
             in Inr (JObj ([(''items'', JArr (map demo_reply [served..<served + n]))]
                           @ (if served + n < n_total then [(''nextPageToken'', JStr ''more'')]
                              else [])))))"

definition demo_comment :: "nat \<Rightarrow> comment" where
  \<comment> \<open>\<open>demo_reply i\<close>, normalised\<close>
  "demo_comment i =
     \<lparr>c_id = JStr (''r'' @ [''0123456789'' ! (i div 10), ''0123456789'' ! (i mod 10)]),
      c_text = JStr ''reply'', author = JNull, authorChannelId = JNull, publishedAt = JNull,
      updatedAt = JNull, likeCount = JInt (int i), isReply = True, parentId = JStr ''c1''\<rparr>"

definition demo_top :: comment where
  \<comment> \<open>the top-level comment of \<open>demo_thread\<close>, normalised\<close>
  "demo_top =
     \<lparr>c_id = JStr ''c1'', c_text = JStr ''top'', author = JNull, authorChannelId = JNull,
      publishedAt = JNull, updatedAt = JNull, likeCount = JInt 0, isReply = False,
      parentId = JNull\<rparr>"

definition constant_upstream :: "json \<Rightarrow> upstream" where
  \<comment> \<open>an upstream that answers every call with the same response\<close>
  "constant_upstream data calls = Inr data"

definition offline :: upstream where
  \<comment> \<open>an upstream that fails every call\<close>
  "offline calls = Inl ''offline''"

definition no_environ :: "string \<Rightarrow> string option" where
  \<comment> \<open>a process environment with no variable set\<close>
  "no_environ name = None"

definition sparse_upstream :: upstream where
  \<comment> \<open>an upstream with almost every field missing: the thread listing has a thread that
      reports 3 replies and nothing else, and a thread with no field at all; every reply
      listing has a reply with an id only and a reply with no field at all, and no
      continuation token\<close>
  "sparse_upstream calls =
     (if calls \<noteq> [] \<and> endpoint (last calls) = YOUTUBE_API_BASE @ ''/comments''
      then Inr (JObj [(''items'', JArr [JObj [(''id'', JStr ''r1'')], JObj []])])
      else Inr (JObj [(''items'',
              JArr [JObj [(''snippet'', JObj [(''totalReplyCount'', JInt 3)])], JObj []])]))"


section \<open>The normalised values, stated without the program\<close>

text \<open>
  What the spec says a normalised comment and thread are, read off a decoded response
  with defaults for what is missing. These definitions use the program's data types and
  the Python primitives (\<open>py_or\<close>, \<open>py_iter\<close>, \<open>truthy\<close>) and none of its functions.
\<close>

definition obj :: "json \<Rightarrow> (string \<times> json) list" where
  \<comment> \<open>the items of a dictionary; none for any other value\<close>
  "obj j = (case j of JObj kvs \<Rightarrow> kvs | _ \<Rightarrow> [])"

definition is_obj :: "json \<Rightarrow> bool" where
  "is_obj j = (case j of JObj kvs \<Rightarrow> True | _ \<Rightarrow> False)"

definition sub :: "json \<Rightarrow> string \<Rightarrow> json" where
  \<comment> \<open>the value under a key, the empty dictionary when the key is missing\<close>
  "sub j k = field (obj j) k (JObj [])"

definition channel :: "json \<Rightarrow> json" where
  \<comment> \<open>the author channel of a snippet, the empty dictionary when missing or falsy\<close>
  "channel s = py_or (field (obj s) ''authorChannelId'' JNull) (JObj [])"

definition comment_of :: "json \<Rightarrow> json \<Rightarrow> bool \<Rightarrow> json \<Rightarrow> comment" where
  \<comment> \<open>the comment with the given id, snippet, reply flag and parent id: a missing
      \<open>likeCount\<close> is 0, every other missing field is null\<close>
  "comment_of cid s reply parent =
     \<lparr>c_id = cid, c_text = field (obj s) ''textDisplay'' JNull,
      author = field (obj s) ''authorDisplayName'' JNull,
      authorChannelId = field (obj (channel s)) ''value'' JNull,
      publishedAt = field (obj s) ''publishedAt'' JNull,
      updatedAt = field (obj s) ''updatedAt'' JNull,
      likeCount = field (obj s) ''likeCount'' (JInt 0), isReply = reply, parentId = parent\<rparr>"

definition reply_ok :: "json \<Rightarrow> bool" where
  \<comment> \<open>a reply whose present fields have the expected shape: it is a dictionary, its
      snippet is missing or a dictionary, its author channel is missing, falsy or a
      dictionary\<close>
  "reply_ok r \<longleftrightarrow> is_obj r \<and> is_obj (sub r ''snippet'') \<and> is_obj (channel (sub r ''snippet''))"

definition normal_reply :: "json \<Rightarrow> comment" where
  "normal_reply r =
     comment_of (field (obj r) ''id'' JNull) (sub r ''snippet'') True
       (field (obj (sub r ''snippet'')) ''parentId'' JNull)"

definition head_ok :: "json \<Rightarrow> bool" where
  \<comment> \<open>a thread item whose present fields, down to the top-level comment's author
      channel, have the expected shape\<close>
  "head_ok item \<longleftrightarrow>
     is_obj item \<and> is_obj (sub item ''snippet'')
     \<and> is_obj (sub (sub item ''snippet'') ''topLevelComment'')
     \<and> is_obj (sub (sub (sub item ''snippet'') ''topLevelComment'') ''snippet'')
     \<and> is_obj (channel (sub (sub (sub item ''snippet'') ''topLevelComment'') ''snippet''))"

definition normal_top :: "json \<Rightarrow> comment" where
  "normal_top item =
     comment_of (field (obj (sub (sub item ''snippet'') ''topLevelComment'')) ''id'' JNull)
       (sub (sub (sub item ''snippet'') ''topLevelComment'') ''snippet'') False JNull"

definition reported_count :: "json \<Rightarrow> json" where
  \<comment> \<open>the reply count a thread item reports, 0 when missing\<close>
  "reported_count item = field (obj (sub item ''snippet'')) ''totalReplyCount'' (JInt 0)"

definition count_ok :: "json \<Rightarrow> bool" where
  \<comment> \<open>a reply count that is falsy or a number\<close>
  "count_ok rc \<longleftrightarrow>
     \<not> truthy rc \<or> (case rc of JInt n \<Rightarrow> True | JBool b \<Rightarrow> True | JFloat f \<Rightarrow> True | _ \<Rightarrow> False)"

definition inline_value :: "json \<Rightarrow> json" where
  \<comment> \<open>the inline comments of a thread item, the empty list when missing or falsy\<close>
  "inline_value item =
     py_or (field (obj (py_or (field (obj item) ''replies'' JNull) (JObj []))) ''comments'' JNull)
       (JArr [])"

definition inline_list :: "json \<Rightarrow> json list" where
  "inline_list item = (case py_iter (inline_value item) of Inl e \<Rightarrow> [] | Inr rs \<Rightarrow> rs)"

definition inline_ok :: "json \<Rightarrow> bool" where
  "inline_ok item \<longleftrightarrow>
     is_obj item \<and> is_obj (py_or (field (obj item) ''replies'' JNull) (JObj []))
     \<and> (case py_iter (inline_value item) of Inl e \<Rightarrow> False | Inr rs \<Rightarrow> list_all reply_ok rs)"

definition listed :: "string + json \<Rightarrow> json list" where
  \<comment> \<open>the items of a listing response, none when missing\<close>
  "listed resp =
     (case resp of
        Inl msg \<Rightarrow> []
      | Inr rdata \<Rightarrow>
          (case py_iter (field (obj rdata) ''items'' (JArr [])) of Inl e \<Rightarrow> [] | Inr rs \<Rightarrow> rs))"

definition batch_ok :: "string + json \<Rightarrow> bool" where
  \<comment> \<open>a reply-listing response that is a dictionary whose items are replies of the
      expected shape\<close>
  "batch_ok resp =
     (case resp of
        Inl msg \<Rightarrow> False
      | Inr rdata \<Rightarrow>
          is_obj rdata
          \<and> (case py_iter (field (obj rdata) ''items'' (JArr [])) of
                Inl e \<Rightarrow> False
              | Inr rs \<Rightarrow> list_all reply_ok rs))"

definition continuation :: "string + json \<Rightarrow> json" where
  \<comment> \<open>the continuation token of a listing response, null when missing\<close>
  "continuation resp =
     (case resp of Inl msg \<Rightarrow> JNull | Inr rdata \<Rightarrow> field (obj rdata) ''nextPageToken'' JNull)"

fun loop_run ::
  "upstream \<Rightarrow> string \<Rightarrow> json \<Rightarrow> int \<Rightarrow> int \<Rightarrow> json \<Rightarrow> request list \<Rightarrow> request list \<Rightarrow> bool" where
  \<comment> \<open>the reply-listing calls of a loop that has fetched \<open>fetched\<close> replies, holds the
      token \<open>tok\<close> and comes after the calls \<open>calls\<close>: none when the budget \<open>m\<close> is spent;
      else a call for \<open>min(100, m - fetched)\<close> replies with the token, answered by a
      well-formed batch, and no further call exactly when the fetched replies now reach
      the budget, or the response has no continuation token, or the batch is empty\<close>
  "loop_run up api_key parent_id m fetched tok calls [] = (\<not> fetched < m)"
| "loop_run up api_key parent_id m fetched tok calls (r # reqs) =
     (fetched < m \<and> r = reply_request api_key parent_id (min 100 (m - fetched)) tok
      \<and> batch_ok (up (calls @ [r]))
      \<and> (let n = int (length (listed (up (calls @ [r]))));
              tok' = continuation (up (calls @ [r]))
          in if m \<le> fetched + n \<or> \<not> truthy tok' \<or> n = 0 then reqs = []
             else loop_run up api_key parent_id m (fetched + n) tok' (calls @ [r]) reqs))"

definition fetched_replies :: "upstream \<Rightarrow> request list \<Rightarrow> request list \<Rightarrow> comment list" where
  \<comment> \<open>the replies of the responses to the calls \<open>reqs\<close> made after \<open>calls\<close>, normalised, in
      the order of the calls\<close>
  "fetched_replies up calls reqs =
     concat (map (\<lambda>resp. map normal_reply (listed resp)) (responses up calls reqs))"

definition blank_comment :: "json \<Rightarrow> bool \<Rightarrow> comment" where
  \<comment> \<open>the comment with the given id and reply flag and every other field at its default\<close>
  "blank_comment cid reply =
     \<lparr>c_id = cid, c_text = JNull, author = JNull, authorChannelId = JNull, publishedAt = JNull,
      updatedAt = JNull, likeCount = JInt 0, isReply = reply, parentId = JNull\<rparr>"


section \<open>Lemmas\<close>

declare reply_loop.simps [simp del]

lemma append_replies_append:
  "append_replies rs replies_payload =
     (case append_replies rs [] of Inl e \<Rightarrow> Inl e | Inr cs \<Rightarrow> Inr (replies_payload @ cs))"
proof (induction rs arbitrary: replies_payload)
  case Nil
  then show ?case by simp
next
  case (Cons r rs)
  show ?case
  proof (cases "reply_payload r")
    case (Inl e)
    then show ?thesis by simp
  next
    case (Inr c)
    then show ?thesis
      using Cons.IH[of "replies_payload @ [c]"] Cons.IH[of "[c]"]
      by (simp split: sum.splits)
  qed
qed

lemma read_batch_observed:
  assumes "read_batch rdata replies_payload = Inr (ritems, replies_payload', n, next_token)"
  shows "replies_payload' = replies_payload @ batch_replies (Inr rdata)"
    and "n = batch_size (Inr rdata)"
    and "next_token = batch_token (Inr rdata)"
    and "truthy ritems \<longleftrightarrow> batch_size (Inr rdata) \<noteq> 0"
proof -
  from assms obtain rs where g: "py_get rdata ''items'' (JArr []) = Inr ritems"
    and i: "py_iter ritems = Inr rs"
    and a: "append_replies rs replies_payload = Inr replies_payload'"
    and l: "py_len ritems = Inr n"
    and t: "py_get rdata ''nextPageToken'' JNull = Inr next_token"
    by (auto simp: read_batch_Inr)
  from a obtain cs where cs: "append_replies rs [] = Inr cs" "replies_payload' = replies_payload @ cs"
    using append_replies_append[of rs replies_payload] by (auto split: sum.splits)
  have len: "length cs = length rs"
    using append_replies_length[OF cs(1)] by simp
  have rb: "read_batch rdata [] = Inr (ritems, cs, n, next_token)"
    using g i cs(1) l t by (simp add: read_batch_Inr)
  then have br: "batch_replies (Inr rdata) = cs"
    by (simp add: batch_replies_def)
  show "replies_payload' = replies_payload @ batch_replies (Inr rdata)"
    using cs(2) br by simp
  have n: "n = int (length rs)"
    using i l by (cases ritems) auto
  show "n = batch_size (Inr rdata)"
    using n br len by (simp add: batch_size_def)
  show "next_token = batch_token (Inr rdata)"
    using t by (simp add: batch_token_def)
  show "truthy ritems \<longleftrightarrow> batch_size (Inr rdata) \<noteq> 0"
    using i br len by (cases ritems) (auto simp: batch_size_def)
qed


lemma requested_reply_request [simp]:
  "requested (reply_request api_key parent_id limit next_token) = JInt limit"
  by (simp add: requested_def reply_request_def reply_params_def)

lemma endpoint_reply_request [simp]:
  "endpoint (reply_request api_key parent_id limit next_token) = YOUTUBE_API_BASE @ ''/comments''"
  by (simp add: reply_request_def)

lemma reply_loop_unfold:
  "reply_loop up api_key parent_id m fetched next_token replies_payload calls =
     (if fetched < m then
        (case up (calls @ [reply_request api_key parent_id (min 100 (m - fetched)) next_token]) of
           Inl msg \<Rightarrow>
             (Inl (RequestFailed msg),
              calls @ [reply_request api_key parent_id (min 100 (m - fetched)) next_token])
         | Inr rdata \<Rightarrow>
             (case read_batch rdata replies_payload of
                Inl e \<Rightarrow>
                  (Inl e, calls @ [reply_request api_key parent_id (min 100 (m - fetched)) next_token])
              | Inr (ritems, replies_payload', n, next_token') \<Rightarrow>
                  if \<not> truthy next_token' \<or> \<not> truthy ritems
                  then (Inr replies_payload',
                        calls @ [reply_request api_key parent_id (min 100 (m - fetched)) next_token])
                  else reply_loop up api_key parent_id m (fetched + n) next_token' replies_payload'
                         (calls @ [reply_request api_key parent_id (min 100 (m - fetched)) next_token])))
      else (Inr replies_payload, calls))"
  by (subst reply_loop.simps) (simp add: http_get_def reply_request_def Let_def split: sum.splits)

lemma stops_exactly_Cons:
  "stops_exactly m fetched (resp # resps) \<longleftrightarrow>
     fetched < m \<and>
     (if resps = [] then stop_rule m fetched resp
      else \<not> stop_rule m fetched resp \<and> stops_exactly m (fetched + batch_size resp) resps)"
  by (cases resps) auto

lemma stops_exactly_budget:
  "stops_exactly m fetched resps \<Longrightarrow> (resps = [] \<longleftrightarrow> \<not> fetched < m)"
  by (cases resps) (auto simp: stops_exactly_Cons)

lemma batch_size_nonneg [simp]: "0 \<le> batch_size resp"
  by (simp add: batch_size_def)

lemma length_responses [simp]: "length (responses up calls reqs) = length reqs"
  by (induction reqs arbitrary: calls) simp_all

lemma reply_loop_trace:
  assumes "reply_loop up api_key parent_id m fetched next_token replies_payload calls = (res, calls')"
  shows "\<exists>reqs. calls' = calls @ reqs
      \<and> int (length reqs) \<le> max 0 (m - fetched)
      \<and> map endpoint reqs = replicate (length reqs) (YOUTUBE_API_BASE @ ''/comments'')
      \<and> map requested reqs = expected_limits m fetched (map batch_size (responses up calls reqs))
      \<and> (\<forall>replies_payload'. res = Inr replies_payload' \<longrightarrow>
            replies_payload' = replies_payload @ concat (map batch_replies (responses up calls reqs))
            \<and> stops_exactly m fetched (responses up calls reqs))"
  using assms
proof (induction "nat (m - fetched)" arbitrary: fetched next_token replies_payload calls
    rule: less_induct)
  case less
  let ?req = "reply_request api_key parent_id (min 100 (m - fetched)) next_token"
  let ?resp = "up (calls @ [?req])"
  note run = less.prems
  show ?case
  proof (cases "fetched < m")
    case False
    with run have "res = Inr replies_payload" "calls' = calls"
      by (simp_all add: reply_loop_unfold)
    with False show ?thesis by (intro exI[of _ "[]"]) simp
  next
    case budget: True
    have one: "responses up calls [?req] = [?resp]" by simp
    show ?thesis
    proof (cases ?resp)
      case (Inl msg)
      with run budget have "res = Inl (RequestFailed msg)" "calls' = calls @ [?req]"
        by (simp_all add: reply_loop_unfold)
      with budget show ?thesis by (intro exI[of _ "[?req]"]) simp
    next
      case (Inr rdata)
      show ?thesis
      proof (cases "read_batch rdata replies_payload")
        case (Inl e)
        with run budget Inr have "res = Inl e" "calls' = calls @ [?req]"
          by (simp_all add: reply_loop_unfold)
        with budget show ?thesis by (intro exI[of _ "[?req]"]) simp
      next
        case batch: (Inr b)
        obtain ritems replies_payload1 n next_token1
          where b: "b = (ritems, replies_payload1, n, next_token1)"
          by (cases b) auto
        note obs = read_batch_observed[OF batch[unfolded b], folded Inr]
        show ?thesis
        proof (cases "\<not> truthy next_token1 \<or> \<not> truthy ritems")
          case True
          with run budget Inr batch b have "res = Inr replies_payload1" "calls' = calls @ [?req]"
            by (auto simp: reply_loop_unfold)
          moreover have "stop_rule m fetched ?resp"
            using True obs by (auto simp: stop_rule_def)
          ultimately show ?thesis
            using budget obs by (intro exI[of _ "[?req]"]) simp
        next
          case False
          then have "batch_size ?resp \<noteq> 0" and tok: "truthy (batch_token ?resp)"
            using obs by auto
          then have "1 \<le> batch_size ?resp"
            unfolding batch_size_def by (cases "batch_replies ?resp") auto
          note size = this tok
          from run budget Inr batch b False
          have rec: "reply_loop up api_key parent_id m (fetched + n) next_token1 replies_payload1
                       (calls @ [?req]) = (res, calls')"
            by (auto simp: reply_loop_unfold)
          have "nat (m - (fetched + n)) < nat (m - fetched)"
            using budget size obs by simp
          from less.hyps[OF this rec] obtain reqs where reqs:
            "calls' = (calls @ [?req]) @ reqs"
            "int (length reqs) \<le> max 0 (m - (fetched + n))"
            "map endpoint reqs = replicate (length reqs) (YOUTUBE_API_BASE @ ''/comments'')"
            "map requested reqs =
               expected_limits m (fetched + n) (map batch_size (responses up (calls @ [?req]) reqs))"
            "\<forall>replies_payload'. res = Inr replies_payload' \<longrightarrow>
               replies_payload' =
                 replies_payload1 @ concat (map batch_replies (responses up (calls @ [?req]) reqs))
               \<and> stops_exactly m (fetched + n) (responses up (calls @ [?req]) reqs)"
            by blast
          have shape: "stops_exactly m fetched (?resp # responses up (calls @ [?req]) reqs)"
            if "stops_exactly m (fetched + n) (responses up (calls @ [?req]) reqs)"
            using that budget size obs(2) stops_exactly_budget[OF that]
            by (auto simp: stops_exactly_Cons stop_rule_def)
          show ?thesis
            using reqs budget size obs shape
            by (intro exI[of _ "?req # reqs"]) auto
        qed
      qed
    qed
  qed
qed

lemma process_item_no_fetch:
  assumes "\<not> include_replies \<or> m \<le> 0"
    and "process_item up api_key include_replies m item calls = (res, calls')"
  shows "calls' = calls \<and> (\<forall>t. res = Inr t \<longrightarrow> inline_replies_payload item = Inr (replies t))"
proof -
  have loop: "reply_loop up api_key parent_id m 0 JNull replies_payload calls
                = (Inr replies_payload, calls)"
    if "m \<le> 0" for parent_id replies_payload
    using that by (simp add: reply_loop_unfold)
  have nf: "need_fetch include_replies reply_count n = Inr fetch \<Longrightarrow> fetch \<Longrightarrow> m \<le> 0"
    for reply_count n fetch
    using assms(1) by (auto simp: need_fetch_def)
  show ?thesis
    using assms(2) nf
    by (auto simp: process_item_def loop split: sum.splits prod.splits if_splits)
qed

lemma process_items_no_fetch:
  assumes "\<not> include_replies \<or> m \<le> 0"
    and "process_items up api_key include_replies m items normalized_threads calls = (res, calls')"
  shows "calls' = calls \<and>
         (\<forall>ts. res = Inr ts \<longrightarrow>
            (\<exists>new. ts = normalized_threads @ new \<and>
               map inline_replies_payload items = map (\<lambda>t. Inr (replies t)) new))"
  using assms(2)
proof (induction items arbitrary: normalized_threads)
  case Nil
  then show ?case by auto
next
  case (Cons item items)
  obtain r1 calls1 where p: "process_item up api_key include_replies m item calls = (r1, calls1)"
    by (cases "process_item up api_key include_replies m item calls") auto
  note one = process_item_no_fetch[OF assms(1) p]
  show ?case
  proof (cases r1)
    case (Inl e)
    with Cons.prems p one show ?thesis by auto
  next
    case (Inr t)
    with Cons.prems p one
    have "process_items up api_key include_replies m items (normalized_threads @ [t]) calls
            = (res, calls')"
      by simp
    from Cons.IH[OF this] Inr one show ?thesis by auto
  qed
qed

lemma fetch_no_fetch:
  assumes "\<not> include_replies \<or> m \<le> 0"
    and "fetch_comment_threads up video_id api_key max_results page_token order include_replies m
           calls = (res, calls')"
  shows "calls' = calls @ [thread_request video_id api_key max_results page_token order] \<and>
         (\<forall>page. res = Inr page \<longrightarrow>
            map inline_replies_payload (thread_items (up calls')) =
              map (\<lambda>t. Inr (replies t)) (threads page))"
proof -
  let ?calls1 = "calls @ [thread_request video_id api_key max_results page_token order]"
  show ?thesis
  proof (cases "up ?calls1")
    case (Inl msg)
    with assms(2) show ?thesis
      by (auto simp: fetch_comment_threads_def http_get_def thread_request_def)
  next
    case (Inr data)
    show ?thesis
    proof (cases "bind_result (py_get data ''items'' (JArr [])) (\<lambda>items.
                bind_result (py_get data ''nextPageToken'' JNull) (\<lambda>next_page_token.
                bind_result (py_iter items) (\<lambda>items'. Inr (next_page_token, items'))))")
      case (Inl e)
      with assms(2) Inr show ?thesis
        by (auto simp: fetch_comment_threads_def http_get_def thread_request_def)
    next
      case found: (Inr b)
      obtain next_page_token items where b: "b = (next_page_token, items)"
        by (cases b) auto
      have items: "thread_items (up ?calls1) = items"
        using found b Inr by (auto simp: thread_items_def bind_result_def split: sum.splits)
      obtain r2 calls2 where
        p: "process_items up api_key include_replies m items [] ?calls1 = (r2, calls2)"
        by (cases "process_items up api_key include_replies m items [] ?calls1") auto
      note all = process_items_no_fetch[OF assms(1) p]
      from assms(2) Inr found b p
      have "calls' = calls2" and "\<And>page. res = Inr page \<Longrightarrow> r2 = Inr (threads page)"
        by (auto simp: fetch_comment_threads_def http_get_def thread_request_def
            split: sum.splits)
      with all items show ?thesis by auto
    qed
  qed
qed

lemma process_item_trace:
  assumes "process_item up api_key include_replies m item calls = (res, calls')"
  shows "\<exists>reqs. calls' = calls @ reqs
      \<and> int (length reqs) \<le> max 0 m
      \<and> map endpoint reqs = replicate (length reqs) (YOUTUBE_API_BASE @ ''/comments'')
      \<and> map requested reqs = expected_limits m 0 (map batch_size (responses up calls reqs))
      \<and> (\<forall>t. res = Inr t \<longrightarrow>
            (\<exists>inl. inline_replies_payload item = Inr inl
               \<and> replies t = inl @ concat (map batch_replies (responses up calls reqs))))"
proof -
  have none: ?thesis if "calls' = calls"
      "\<And>t. res = Inr t \<Longrightarrow> inline_replies_payload item = Inr (replies t)"
    using that by (intro exI[of _ "[]"]) auto
  show ?thesis
  proof (cases "item_fields item")
    case (Inl e)
    with assms show ?thesis by (intro none) (auto simp: process_item_def)
  next
    case fields: (Inr f)
    obtain thread_id reply_count top_comment where f: "f = (thread_id, reply_count, top_comment)"
      by (cases f) auto
    show ?thesis
    proof (cases "inline_replies_payload item")
      case (Inl e)
      with assms fields f show ?thesis by (intro none) (auto simp: process_item_def)
    next
      case inl: (Inr replies_payload)
      show ?thesis
      proof (cases "need_fetch include_replies reply_count (length replies_payload)")
        case (Inl e)
        with assms fields f inl show ?thesis by (intro none) (auto simp: process_item_def)
      next
        case (Inr fetch)
        show ?thesis
        proof (cases fetch)
          case False
          with assms fields f inl Inr show ?thesis
            by (intro none) (auto simp: process_item_def)
        next
          case True
          obtain r2 calls2 where loop:
            "reply_loop up api_key (c_id top_comment) m 0 JNull replies_payload calls = (r2, calls2)"
            by (cases "reply_loop up api_key (c_id top_comment) m 0 JNull replies_payload calls")
              auto
          from assms fields f inl Inr True loop
          have "calls' = calls2" and "\<And>t. res = Inr t \<Longrightarrow> r2 = Inr (replies t)"
            by (auto simp: process_item_def split: sum.splits)
          with reply_loop_trace[OF loop] inl show ?thesis
            by auto
        qed
      qed
    qed
  qed
qed




lemma process_items_each:
  "process_items up api_key include_replies m items normalized_threads calls = (Inr ts, calls') \<Longrightarrow>
   \<exists>new. ts = normalized_threads @ new
     \<and> list_all2 (\<lambda>t item. \<exists>c0 c1.
            process_item up api_key include_replies m item c0 = (Inr t, c1)) new items"
proof (induction items arbitrary: normalized_threads calls)
  case Nil
  then show ?case by simp
next
  case (Cons item items)
  obtain r1 calls1 where p: "process_item up api_key include_replies m item calls = (r1, calls1)"
    by (cases "process_item up api_key include_replies m item calls") auto
  show ?case
  proof (cases r1)
    case (Inl e)
    with Cons.prems p show ?thesis by simp
  next
    case (Inr t)
    with Cons.prems p
    have "process_items up api_key include_replies m items (normalized_threads @ [t]) calls1
            = (Inr ts, calls')"
      by simp
    from Cons.IH[OF this] obtain new where
      "ts = (normalized_threads @ [t]) @ new"
      "list_all2 (\<lambda>t item. \<exists>c0 c1.
            process_item up api_key include_replies m item c0 = (Inr t, c1)) new items"
      by blast
    with p Inr show ?thesis
      by (intro exI[of _ "t # new"]) auto
  qed
qed

lemma fetch_runs_process_item:
  assumes "fetch_comment_threads up video_id api_key max_results page_token order include_replies m
             calls = (Inr page, calls')"
  shows "list_all2 (\<lambda>t item. \<exists>c0 c1.
            process_item up api_key include_replies m item c0 = (Inr t, c1))
           (threads page)
           (thread_items (up (calls @ [thread_request video_id api_key max_results page_token order])))"
proof -
  let ?calls1 = "calls @ [thread_request video_id api_key max_results page_token order]"
  from assms obtain data where data: "up ?calls1 = Inr data"
    by (cases "up ?calls1")
      (auto simp: fetch_comment_threads_def http_get_def thread_request_def)
  from assms data obtain b where
    found: "bind_result (py_get data ''items'' (JArr [])) (\<lambda>items.
              bind_result (py_get data ''nextPageToken'' JNull) (\<lambda>next_page_token.
              bind_result (py_iter items) (\<lambda>items'. Inr (next_page_token, items'))))
            = Inr b"
    by (cases "bind_result (py_get data ''items'' (JArr [])) (\<lambda>items.
              bind_result (py_get data ''nextPageToken'' JNull) (\<lambda>next_page_token.
              bind_result (py_iter items) (\<lambda>items'. Inr (next_page_token, items'))))")
      (auto simp: fetch_comment_threads_def http_get_def thread_request_def)
  obtain next_page_token items where b: "b = (next_page_token, items)"
    by (cases b) auto
  obtain r2 calls2 where
    p: "process_items up api_key include_replies m items [] ?calls1 = (r2, calls2)"
    by (cases "process_items up api_key include_replies m items [] ?calls1") auto
  from assms data found b p have rest:
    "process_items up api_key include_replies m items [] ?calls1 = (Inr (threads page), calls2)"
    by (cases r2) (auto simp: fetch_comment_threads_def http_get_def thread_request_def)
  have "thread_items (up ?calls1) = items"
    using found b data by (auto simp: thread_items_def bind_result_def split: sum.splits)
  with process_items_each[OF rest] show ?thesis by simp
qed


section \<open>The program computes the normalised values\<close>

lemma is_obj_conv: "is_obj j \<longleftrightarrow> (\<exists>kvs. j = JObj kvs)"
  by (cases j) (simp_all add: is_obj_def)

lemma py_get_conv: "py_get j k dflt = (if is_obj j then Inr (field (obj j) k dflt) else Inl AttributeError)"
  by (cases j) (simp_all add: is_obj_def obj_def field_def)

lemma reply_payload_exact:
  "reply_payload r = (if reply_ok r then Inr (normal_reply r) else Inl AttributeError)"
  by (auto simp: reply_payload_def bind_result_def py_get_conv reply_ok_def normal_reply_def
      comment_of_def sub_def channel_def)

lemma item_fields_exact:
  "item_fields item =
     (if head_ok item
      then Inr (field (obj item) ''id'' JNull, reported_count item, normal_top item)
      else Inl AttributeError)"
  by (auto simp: item_fields_def bind_result_def py_get_conv head_ok_def normal_top_def
      comment_of_def sub_def channel_def reported_count_def)

lemma append_replies_exact:
  "append_replies rs replies_payload =
     (if list_all reply_ok rs then Inr (replies_payload @ map normal_reply rs)
      else Inl AttributeError)"
  by (induction rs arbitrary: replies_payload) (simp_all add: reply_payload_exact)

lemma inline_replies_payload_exact:
  "inline_ok item \<Longrightarrow> inline_replies_payload item = Inr (map normal_reply (inline_list item))"
  by (auto simp: inline_replies_payload_def bind_result_def py_get_conv inline_ok_def
      inline_list_def inline_value_def append_replies_exact split: sum.splits)

lemma inline_replies_payload_Inr:
  "inline_replies_payload item = Inr inl \<Longrightarrow> inline_ok item"
  by (auto simp: inline_replies_payload_def bind_result_def py_get_conv inline_ok_def
      inline_list_def inline_value_def append_replies_exact split: sum.splits if_splits)

lemma py_len_iter: "py_iter j = Inr rs \<Longrightarrow> py_len j = Inr (int (length rs))"
  by (cases j) auto

lemma truthy_iter: "py_iter j = Inr rs \<Longrightarrow> truthy j \<longleftrightarrow> rs \<noteq> []"
  by (cases j) auto

lemma read_batch_exact:
  "batch_ok (Inr rdata) \<Longrightarrow>
   read_batch rdata replies_payload =
     Inr (field (obj rdata) ''items'' (JArr []),
          replies_payload @ map normal_reply (listed (Inr rdata)),
          int (length (listed (Inr rdata))), continuation (Inr rdata))"
  by (auto simp: read_batch_def bind_result_def py_get_conv batch_ok_def listed_def
      continuation_def append_replies_exact py_len_iter split: sum.splits)

lemma read_batch_Inr_ok:
  "read_batch rdata replies_payload = Inr b \<Longrightarrow> batch_ok (Inr rdata)"
  by (auto simp: read_batch_def bind_result_def py_get_conv batch_ok_def
      append_replies_exact split: sum.splits if_splits)

lemma truthy_items:
  "batch_ok (Inr rdata) \<Longrightarrow>
   truthy (field (obj rdata) ''items'' (JArr [])) \<longleftrightarrow> listed (Inr rdata) \<noteq> []"
  by (auto simp: batch_ok_def listed_def truthy_iter split: sum.splits)


lemma reply_loop_complete:
  "loop_run up api_key parent_id m fetched tok calls reqs \<Longrightarrow>
   reply_loop up api_key parent_id m fetched tok replies_payload calls =
     (Inr (replies_payload @ fetched_replies up calls reqs), calls @ reqs)"
proof (induction reqs arbitrary: fetched tok replies_payload calls)
  case Nil
  then show ?case by (simp add: reply_loop_unfold fetched_replies_def)
next
  case (Cons r reqs)
  let ?resp = "up (calls @ [r])"
  let ?n = "int (length (listed ?resp))"
  from Cons.prems have p: "fetched < m
      \<and> r = reply_request api_key parent_id (min 100 (m - fetched)) tok
      \<and> batch_ok ?resp
      \<and> (if m \<le> fetched + ?n \<or> \<not> truthy (continuation ?resp) \<or> ?n = 0 then reqs = []
         else loop_run up api_key parent_id m (fetched + ?n) (continuation ?resp)
                (calls @ [r]) reqs)"
    unfolding loop_run.simps Let_def .
  note budget = p[THEN conjunct1]
    and r = p[THEN conjunct2, THEN conjunct1]
    and ok = p[THEN conjunct2, THEN conjunct2, THEN conjunct1]
    and rest = p[THEN conjunct2, THEN conjunct2, THEN conjunct2]
  from ok obtain rdata where rdata: "?resp = Inr rdata"
    by (cases ?resp) (auto simp: batch_ok_def)
  note rb = read_batch_exact[OF ok[unfolded rdata], of replies_payload, folded rdata]
  note ti = truthy_items[OF ok[unfolded rdata], folded rdata]
  have step: "reply_loop up api_key parent_id m fetched tok replies_payload calls =
     (if \<not> truthy (continuation ?resp) \<or> ?n = 0
      then (Inr (replies_payload @ map normal_reply (listed ?resp)), calls @ [r])
      else reply_loop up api_key parent_id m (fetched + ?n) (continuation ?resp)
             (replies_payload @ map normal_reply (listed ?resp)) (calls @ [r]))"
    using budget rdata rb ti
    by (subst reply_loop_unfold) (auto simp: r[symmetric])
  show ?case
  proof (cases "m \<le> fetched + ?n \<or> \<not> truthy (continuation ?resp) \<or> ?n = 0")
    case True
    with rest have "reqs = []" by simp
    moreover have "reply_loop up api_key parent_id m (fetched + ?n) (continuation ?resp)
             (replies_payload @ map normal_reply (listed ?resp)) (calls @ [r])
           = (Inr (replies_payload @ map normal_reply (listed ?resp)), calls @ [r])"
      if "m \<le> fetched + ?n"
      using that by (subst reply_loop_unfold) simp
    ultimately show ?thesis
      using True step by (auto simp: fetched_replies_def)
  next
    case False
    with rest have "loop_run up api_key parent_id m (fetched + ?n) (continuation ?resp)
                      (calls @ [r]) reqs"
      by simp
    from Cons.IH[OF this, of "replies_payload @ map normal_reply (listed ?resp)"] False step
    show ?thesis
      by (simp add: fetched_replies_def)
  qed
qed

lemma reply_loop_sound:
  "reply_loop up api_key parent_id m fetched tok replies_payload calls
     = (Inr replies_payload', calls') \<Longrightarrow>
   \<exists>reqs. calls' = calls @ reqs \<and> loop_run up api_key parent_id m fetched tok calls reqs"
proof (induction "nat (m - fetched)" arbitrary: fetched tok replies_payload calls
    rule: less_induct)
  case less
  let ?r = "reply_request api_key parent_id (min 100 (m - fetched)) tok"
  let ?resp = "up (calls @ [?r])"
  let ?n = "int (length (listed ?resp))"
  note run = less.prems
  show ?case
  proof (cases "fetched < m")
    case False
    with run have "calls' = calls" by (simp add: reply_loop_unfold)
    with False show ?thesis by (intro exI[of _ "[]"]) simp
  next
    case budget: True
    from run budget obtain rdata b where rdata: "?resp = Inr rdata"
      and b: "read_batch rdata replies_payload = Inr b"
      by (cases ?resp; cases "read_batch (projr ?resp) replies_payload")
        (auto simp: reply_loop_unfold)
    have ok: "batch_ok ?resp"
      using read_batch_Inr_ok[OF b] rdata by simp
    note rb = read_batch_exact[OF ok[unfolded rdata], of replies_payload, folded rdata]
    note ti = truthy_items[OF ok[unfolded rdata], folded rdata]
    have step: "reply_loop up api_key parent_id m fetched tok replies_payload calls =
       (if \<not> truthy (continuation ?resp) \<or> ?n = 0
        then (Inr (replies_payload @ map normal_reply (listed ?resp)), calls @ [?r])
        else reply_loop up api_key parent_id m (fetched + ?n) (continuation ?resp)
               (replies_payload @ map normal_reply (listed ?resp)) (calls @ [?r]))"
      using budget rdata rb ti
      by (subst reply_loop_unfold) auto
    show ?thesis
    proof (cases "\<not> truthy (continuation ?resp) \<or> ?n = 0")
      case True
      with run step have "calls' = calls @ [?r]" by auto
      with budget ok True show ?thesis
        by (intro exI[of _ "[?r]"]) (auto simp: Let_def)
    next
      case False
      with run step have rec:
        "reply_loop up api_key parent_id m (fetched + ?n) (continuation ?resp)
           (replies_payload @ map normal_reply (listed ?resp)) (calls @ [?r])
         = (Inr replies_payload', calls')"
        by auto
      have "nat (m - (fetched + ?n)) < nat (m - fetched)"
        using budget False by auto
      from less.hyps[OF this rec] obtain reqs where reqs: "calls' = (calls @ [?r]) @ reqs"
        "loop_run up api_key parent_id m (fetched + ?n) (continuation ?resp) (calls @ [?r]) reqs"
        by blast
      have "reqs = []" if "m \<le> fetched + ?n"
        using that reqs(2) by (cases reqs) auto
      with reqs budget ok False show ?thesis
        by (intro exI[of _ "?r # reqs"]) (auto simp: Let_def)
    qed
  qed
qed

lemma reply_loop_iff:
  "reply_loop up api_key parent_id m fetched tok replies_payload calls
     = (Inr replies_payload', calls') \<longleftrightarrow>
   (\<exists>reqs. calls' = calls @ reqs \<and> loop_run up api_key parent_id m fetched tok calls reqs
      \<and> replies_payload' = replies_payload @ fetched_replies up calls reqs)"
proof
  assume run: "reply_loop up api_key parent_id m fetched tok replies_payload calls
     = (Inr replies_payload', calls')"
  from reply_loop_sound[OF run] obtain reqs where
    reqs: "calls' = calls @ reqs" "loop_run up api_key parent_id m fetched tok calls reqs"
    by blast
  from reply_loop_complete[OF reqs(2), of replies_payload] run reqs
  show "\<exists>reqs. calls' = calls @ reqs \<and> loop_run up api_key parent_id m fetched tok calls reqs
      \<and> replies_payload' = replies_payload @ fetched_replies up calls reqs"
    by auto
next
  assume "\<exists>reqs. calls' = calls @ reqs \<and> loop_run up api_key parent_id m fetched tok calls reqs
      \<and> replies_payload' = replies_payload @ fetched_replies up calls reqs"
  then show "reply_loop up api_key parent_id m fetched tok replies_payload calls
     = (Inr replies_payload', calls')"
    using reply_loop_complete by auto
qed

lemma process_item_enters_loop:
  assumes "head_ok item" "inline_ok item" "reported_count item = JInt k"
    "int (length (inline_list item)) < k"
  shows "process_item up api_key True m item calls =
     (case reply_loop up api_key (c_id (normal_top item)) m 0 JNull
             (map normal_reply (inline_list item)) calls of
        (Inl e, calls') \<Rightarrow> (Inl e, calls')
      | (Inr replies_payload, calls') \<Rightarrow>
          (Inr \<lparr>threadId = field (obj item) ''id'' JNull, topLevelComment = normal_top item,
                replyCount = JInt k, replies = replies_payload\<rparr>, calls'))"
  using assms
  by (simp add: process_item_def item_fields_exact inline_replies_payload_exact need_fetch_def)

lemma process_item_fetch_iff:
  assumes "head_ok item" "inline_ok item" "reported_count item = JInt k"
    "int (length (inline_list item)) < k"
  shows "process_item up api_key True m item calls = (Inr t, calls') \<longleftrightarrow>
     (\<exists>reqs. calls' = calls @ reqs
        \<and> loop_run up api_key (c_id (normal_top item)) m 0 JNull calls reqs
        \<and> t = \<lparr>threadId = field (obj item) ''id'' JNull, topLevelComment = normal_top item,
               replyCount = JInt k,
               replies = map normal_reply (inline_list item) @ fetched_replies up calls reqs\<rparr>)"
proof
  assume run: "process_item up api_key True m item calls = (Inr t, calls')"
  then obtain rp where loop: "reply_loop up api_key (c_id (normal_top item)) m 0 JNull
             (map normal_reply (inline_list item)) calls = (Inr rp, calls')"
    and t: "t = \<lparr>threadId = field (obj item) ''id'' JNull, topLevelComment = normal_top item,
               replyCount = JInt k, replies = rp\<rparr>"
    unfolding process_item_enters_loop[OF assms]
    by (auto split: prod.splits sum.splits)
  from loop[unfolded reply_loop_iff] t
  show "\<exists>reqs. calls' = calls @ reqs
        \<and> loop_run up api_key (c_id (normal_top item)) m 0 JNull calls reqs
        \<and> t = \<lparr>threadId = field (obj item) ''id'' JNull, topLevelComment = normal_top item,
               replyCount = JInt k,
               replies = map normal_reply (inline_list item) @ fetched_replies up calls reqs\<rparr>"
    by auto
next
  assume "\<exists>reqs. calls' = calls @ reqs
        \<and> loop_run up api_key (c_id (normal_top item)) m 0 JNull calls reqs
        \<and> t = \<lparr>threadId = field (obj item) ''id'' JNull, topLevelComment = normal_top item,
               replyCount = JInt k,
               replies = map normal_reply (inline_list item) @ fetched_replies up calls reqs\<rparr>"
  then obtain reqs where reqs: "calls' = calls @ reqs"
    "loop_run up api_key (c_id (normal_top item)) m 0 JNull calls reqs"
    "t = \<lparr>threadId = field (obj item) ''id'' JNull, topLevelComment = normal_top item,
               replyCount = JInt k,
               replies = map normal_reply (inline_list item) @ fetched_replies up calls reqs\<rparr>"
    by blast
  from reply_loop_complete[OF reqs(2), of "map normal_reply (inline_list item)"] reqs(1,3)
  show "process_item up api_key True m item calls = (Inr t, calls')"
    unfolding process_item_enters_loop[OF assms] by simp
qed

lemma process_item_Inr_shape:
  assumes "process_item up api_key include_replies m item calls = (Inr t, calls')"
  shows "head_ok item \<and> inline_ok item \<and> replyCount t = reported_count item"
proof -
  from assms have h: "head_ok item"
    by (auto simp: process_item_def item_fields_exact split: if_splits)
  from assms h obtain inl where "inline_replies_payload item = Inr inl"
    by (cases "inline_replies_payload item") (auto simp: process_item_def item_fields_exact)
  then have i: "inline_ok item"
    by (rule inline_replies_payload_Inr)
  from assms h i have "replyCount t = reported_count item"
    by (auto simp: process_item_def item_fields_exact inline_replies_payload_exact
        split: sum.splits prod.splits if_splits)
  with h i show ?thesis by simp
qed

lemma process_item_extends:
  "process_item up api_key include_replies m item calls = (res, calls') \<Longrightarrow>
   \<exists>reqs. calls' = calls @ reqs"
  using process_item_trace by blast

lemma process_items_segments:
  "process_items up api_key include_replies m items normalized_threads calls = (Inr ts, calls') \<Longrightarrow>
   \<exists>new. ts = normalized_threads @ new
     \<and> (\<exists>rest. calls' = calls @ rest)
     \<and> list_all2 (\<lambda>t item. \<exists>pre seg post. calls' = calls @ pre @ seg @ post
            \<and> process_item up api_key include_replies m item (calls @ pre)
                = (Inr t, calls @ pre @ seg)) new items"
proof (induction items arbitrary: normalized_threads calls)
  case Nil
  then show ?case by simp
next
  case (Cons item items)
  obtain r1 calls1 where p: "process_item up api_key include_replies m item calls = (r1, calls1)"
    by (cases "process_item up api_key include_replies m item calls") auto
  from process_item_extends[OF p] obtain seg where seg: "calls1 = calls @ seg"
    by blast
  show ?case
  proof (cases r1)
    case (Inl e)
    with Cons.prems p show ?thesis by simp
  next
    case (Inr t)
    with Cons.prems p
    have "process_items up api_key include_replies m items (normalized_threads @ [t]) calls1
            = (Inr ts, calls')"
      by simp
    from Cons.IH[OF this] obtain new rest where new:
      "ts = (normalized_threads @ [t]) @ new" "calls' = calls1 @ rest"
      "list_all2 (\<lambda>t item. \<exists>pre seg post. calls' = calls1 @ pre @ seg @ post
            \<and> process_item up api_key include_replies m item (calls1 @ pre)
                = (Inr t, calls1 @ pre @ seg)) new items"
      by blast
    have first: "\<exists>pre seg' post. calls' = calls @ pre @ seg' @ post
            \<and> process_item up api_key include_replies m item (calls @ pre)
                = (Inr t, calls @ pre @ seg')"
      using p Inr seg new(2) by (intro exI[of _ "[]"] exI[of _ seg] exI[of _ rest]) simp
    have later: "list_all2 (\<lambda>t item. \<exists>pre seg post. calls' = calls @ pre @ seg @ post
            \<and> process_item up api_key include_replies m item (calls @ pre)
                = (Inr t, calls @ pre @ seg)) new items"
      using new(3)
    proof (rule list_all2_mono)
      fix t' item'
      assume "\<exists>pre seg post. calls' = calls1 @ pre @ seg @ post
            \<and> process_item up api_key include_replies m item' (calls1 @ pre)
                = (Inr t', calls1 @ pre @ seg)"
      then obtain pre seg' post where "calls' = calls1 @ pre @ seg' @ post"
        "process_item up api_key include_replies m item' (calls1 @ pre)
                = (Inr t', calls1 @ pre @ seg')"
        by blast
      then show "\<exists>pre seg post. calls' = calls @ pre @ seg @ post
            \<and> process_item up api_key include_replies m item' (calls @ pre)
                = (Inr t', calls @ pre @ seg)"
        using seg by (intro exI[of _ "seg @ pre"] exI[of _ seg'] exI[of _ post]) simp
    qed
    show ?thesis
      using new(1,2) seg first later by (intro exI[of _ "t # new"]) auto
  qed
qed

lemma fetch_runs_segments:
  assumes "fetch_comment_threads up video_id api_key max_results page_token order include_replies m
             calls = (Inr page, calls')"
  shows "list_all2 (\<lambda>t item. \<exists>pre seg post.
            calls' = calls @ thread_request video_id api_key max_results page_token order
                       # pre @ seg @ post
            \<and> process_item up api_key include_replies m item
                (calls @ thread_request video_id api_key max_results page_token order # pre)
                = (Inr t, calls @ thread_request video_id api_key max_results page_token order
                            # pre @ seg))
           (threads page)
           (thread_items (up (calls @ [thread_request video_id api_key max_results page_token order])))"
proof -
  let ?calls1 = "calls @ [thread_request video_id api_key max_results page_token order]"
  from assms obtain data where data: "up ?calls1 = Inr data"
    by (cases "up ?calls1")
      (auto simp: fetch_comment_threads_def http_get_def thread_request_def)
  from assms data obtain b where
    found: "bind_result (py_get data ''items'' (JArr [])) (\<lambda>items.
              bind_result (py_get data ''nextPageToken'' JNull) (\<lambda>next_page_token.
              bind_result (py_iter items) (\<lambda>items'. Inr (next_page_token, items'))))
            = Inr b"
    by (cases "bind_result (py_get data ''items'' (JArr [])) (\<lambda>items.
              bind_result (py_get data ''nextPageToken'' JNull) (\<lambda>next_page_token.
              bind_result (py_iter items) (\<lambda>items'. Inr (next_page_token, items'))))")
      (auto simp: fetch_comment_threads_def http_get_def thread_request_def)
  obtain next_page_token items where b: "b = (next_page_token, items)"
    by (cases b) auto
  obtain r2 calls2 where
    p: "process_items up api_key include_replies m items [] ?calls1 = (r2, calls2)"
    by (cases "process_items up api_key include_replies m items [] ?calls1") auto
  from assms data found b p have rest:
    "process_items up api_key include_replies m items [] ?calls1 = (Inr (threads page), calls')"
    by (cases r2) (auto simp: fetch_comment_threads_def http_get_def thread_request_def)
  have "thread_items (up ?calls1) = items"
    using found b data by (auto simp: thread_items_def bind_result_def split: sum.splits)
  with process_items_segments[OF rest] show ?thesis by simp
qed

lemma loop_run_exists:
  assumes all: "\<forall>hist. hist \<noteq> [] \<longrightarrow> endpoint (last hist) = YOUTUBE_API_BASE @ ''/comments''
                  \<longrightarrow> batch_ok (up hist)"
  shows "\<exists>reqs. loop_run up api_key parent_id m fetched tok calls reqs"
proof (induction "nat (m - fetched)" arbitrary: fetched tok calls rule: less_induct)
  case less
  let ?r = "reply_request api_key parent_id (min 100 (m - fetched)) tok"
  let ?resp = "up (calls @ [?r])"
  let ?n = "int (length (listed ?resp))"
  show ?case
  proof (cases "fetched < m")
    case False
    then show ?thesis by (intro exI[of _ "[]"]) simp
  next
    case budget: True
    have ok: "batch_ok ?resp"
      using all by simp
    show ?thesis
    proof (cases "m \<le> fetched + ?n \<or> \<not> truthy (continuation ?resp) \<or> ?n = 0")
      case True
      with budget ok show ?thesis
        by (intro exI[of _ "[?r]"]) (simp add: Let_def)
    next
      case False
      then have "nat (m - (fetched + ?n)) < nat (m - fetched)"
        using budget by auto
      from less.hyps[OF this, of "continuation ?resp" "calls @ [?r]"] obtain reqs where
        "loop_run up api_key parent_id m (fetched + ?n) (continuation ?resp) (calls @ [?r]) reqs"
        by blast
      with budget ok False show ?thesis
        by (intro exI[of _ "?r # reqs"]) (simp add: Let_def)
    qed
  qed
qed

lemma loop_run_batches_ok:
  "loop_run up api_key parent_id m fetched tok calls reqs \<Longrightarrow>
   list_all batch_ok (responses up calls reqs)"
proof (induction reqs arbitrary: fetched tok calls)
  case Nil
  then show ?case by simp
next
  case (Cons r reqs)
  then show ?case
    by (cases "reqs = []") (auto simp: Let_def split: if_splits)
qed

lemma batch_ok_listed: "batch_ok resp \<Longrightarrow> list_all reply_ok (listed resp)"
  by (auto simp: batch_ok_def listed_def split: sum.splits)

lemma fetched_replies_normal:
  "list_all batch_ok (responses up calls reqs) \<Longrightarrow>
   \<exists>rs. list_all reply_ok rs \<and> fetched_replies up calls reqs = map normal_reply rs"
  unfolding fetched_replies_def
proof (induction "responses up calls reqs" arbitrary: calls reqs)
  case Nil
  then show ?case by (intro exI[of _ "[]"]) simp
next
  case (Cons resp resps)
  then obtain r reqs' where reqs: "reqs = r # reqs'" "resp = up (calls @ [r])"
    "resps = responses up (calls @ [r]) reqs'"
    by (cases reqs) auto
  from Cons.prems reqs have "list_all batch_ok (responses up (calls @ [r]) reqs')"
    and ok: "batch_ok resp"
    by simp_all
  from Cons.hyps(1)[OF reqs(3) this(1)] obtain rs where
    "list_all reply_ok rs"
    "concat (map (\<lambda>resp. map normal_reply (listed resp)) (responses up (calls @ [r]) reqs'))
       = map normal_reply rs"
    by blast
  with batch_ok_listed[OF ok] reqs show ?case
    by (intro exI[of _ "listed resp @ rs"]) simp
qed

lemma count_ok_need_fetch:
  "count_ok rc \<Longrightarrow> \<exists>b. need_fetch include_replies rc n = Inr b"
proof (cases rc)
  case (JFloat f)
  then show ?thesis
    by (cases f) (auto simp: need_fetch_def)
qed (auto simp: count_ok_def need_fetch_def)

lemma process_item_start:
  assumes "head_ok item" "inline_ok item"
   and nf: "need_fetch include_replies (reported_count item) (length (inline_list item)) = Inr b"
  shows "process_item up api_key include_replies m item calls =
     (case (if b
            then reply_loop up api_key (c_id (normal_top item)) m 0 JNull
                   (map normal_reply (inline_list item)) calls
            else (Inr (map normal_reply (inline_list item)), calls)) of
        (Inl e, calls') \<Rightarrow> (Inl e, calls')
      | (Inr replies_payload', calls') \<Rightarrow>
          (Inr \<lparr>threadId = field (obj item) ''id'' JNull, topLevelComment = normal_top item,
                replyCount = reported_count item, replies = replies_payload'\<rparr>, calls'))"
  unfolding process_item_def item_fields_exact inline_replies_payload_exact[OF assms(2)]
  by (simp only: assms(1) if_True sum.case prod.case length_map nf)

lemma process_item_no_loop:
  assumes "head_ok item" "inline_ok item"
   and nf: "need_fetch include_replies (reported_count item) (length (inline_list item)) = Inr False"
  shows "process_item up api_key include_replies m item calls =
     (Inr \<lparr>threadId = field (obj item) ''id'' JNull, topLevelComment = normal_top item,
           replyCount = reported_count item,
           replies = map normal_reply (inline_list item)\<rparr>, calls)"
  unfolding process_item_start[OF assms]
  by (simp only: if_False sum.case prod.case)

lemma process_item_loop:
  assumes "head_ok item" "inline_ok item"
   and nf: "need_fetch include_replies (reported_count item) (length (inline_list item)) = Inr True"
   and run: "loop_run up api_key (c_id (normal_top item)) m 0 JNull calls reqs"
  shows "process_item up api_key include_replies m item calls =
     (Inr \<lparr>threadId = field (obj item) ''id'' JNull, topLevelComment = normal_top item,
           replyCount = reported_count item,
           replies = map normal_reply (inline_list item) @ fetched_replies up calls reqs\<rparr>,
      calls @ reqs)"
  unfolding process_item_start[OF assms(1-3)]
  by (simp only: if_True sum.case prod.case
          reply_loop_complete[OF run, of "map normal_reply (inline_list item)"])

lemma process_item_ok:
  assumes all: "\<forall>hist. hist \<noteq> [] \<longrightarrow> endpoint (last hist) = YOUTUBE_API_BASE @ ''/comments''
                  \<longrightarrow> batch_ok (up hist)"
    and "head_ok item" "inline_ok item" "count_ok (reported_count item)"
  shows "\<exists>t calls'. process_item up api_key include_replies m item calls = (Inr t, calls')
           \<and> threadId t = field (obj item) ''id'' JNull
           \<and> topLevelComment t = normal_top item
           \<and> replyCount t = reported_count item
           \<and> (\<exists>rs. list_all reply_ok rs \<and> replies t = map normal_reply (inline_list item @ rs))"
proof -
  from count_ok_need_fetch[OF assms(4)] obtain b where
    nf: "need_fetch include_replies (reported_count item) (length (inline_list item)) = Inr b"
    by blast
  have "\<exists>rs calls'. list_all reply_ok rs
          \<and> process_item up api_key include_replies m item calls =
     (Inr \<lparr>threadId = field (obj item) ''id'' JNull, topLevelComment = normal_top item,
           replyCount = reported_count item,
           replies = map normal_reply (inline_list item @ rs)\<rparr>, calls')"
  proof (cases b)
    case False
    with nf have "need_fetch include_replies (reported_count item) (length (inline_list item))
        = Inr False"
      by simp
    from process_item_no_loop[OF assms(2,3) this, of up api_key m calls]
    show ?thesis
      by (intro exI[of _ "[]"] exI[of _ calls]) simp
  next
    case True
    with nf have nf': "need_fetch include_replies (reported_count item) (length (inline_list item))
        = Inr True"
      by simp
    from loop_run_exists[OF all] obtain reqs where
      run: "loop_run up api_key (c_id (normal_top item)) m 0 JNull calls reqs"
      by blast
    from fetched_replies_normal[OF loop_run_batches_ok[OF run]] obtain rs where
      rs: "list_all reply_ok rs" "fetched_replies up calls reqs = map normal_reply rs"
      by blast
    from process_item_loop[OF assms(2,3) nf' run] rs
    show ?thesis
      by (intro exI[of _ rs] exI[of _ "calls @ reqs"]) simp
  qed
  then obtain rs calls' where rs: "list_all reply_ok rs"
    and run: "process_item up api_key include_replies m item calls =
     (Inr \<lparr>threadId = field (obj item) ''id'' JNull, topLevelComment = normal_top item,
           replyCount = reported_count item,
           replies = map normal_reply (inline_list item @ rs)\<rparr>, calls')"
    by (elim exE conjE)
  show ?thesis
    apply (rule exI[of _ "\<lparr>threadId = field (obj item) ''id'' JNull,
           topLevelComment = normal_top item, replyCount = reported_count item,
           replies = map normal_reply (inline_list item @ rs)\<rparr>"])
    apply (rule exI[of _ calls'])
    apply (simp only: run thread.simps simp_thms)
    apply (rule exI[of _ rs])
    apply (simp only: rs simp_thms)
    done
qed

lemma process_items_ok:
  assumes all: "\<forall>hist. hist \<noteq> [] \<longrightarrow> endpoint (last hist) = YOUTUBE_API_BASE @ ''/comments''
                  \<longrightarrow> batch_ok (up hist)"
  shows "list_all (\<lambda>item. head_ok item \<and> inline_ok item \<and> count_ok (reported_count item)) items \<Longrightarrow>
     \<exists>ts calls'. process_items up api_key include_replies m items normalized_threads calls
                    = (Inr (normalized_threads @ ts), calls')
       \<and> list_all2 (\<lambda>t item. threadId t = field (obj item) ''id'' JNull
             \<and> topLevelComment t = normal_top item
             \<and> replyCount t = reported_count item
             \<and> (\<exists>rs. list_all reply_ok rs
                   \<and> replies t = map normal_reply (inline_list item @ rs))) ts items"
proof (induction items arbitrary: normalized_threads calls)
  case Nil
  then show ?case by simp
next
  case (Cons item items)
  then have item: "head_ok item" "inline_ok item" "count_ok (reported_count item)"
    and rest: "list_all (\<lambda>item. head_ok item \<and> inline_ok item \<and> count_ok (reported_count item)) items"
    by simp_all
  from process_item_ok[OF all item, of api_key include_replies m calls] obtain t calls1 where
    t: "process_item up api_key include_replies m item calls = (Inr t, calls1)"
      "threadId t = field (obj item) ''id'' JNull \<and> topLevelComment t = normal_top item
       \<and> replyCount t = reported_count item
       \<and> (\<exists>rs. list_all reply_ok rs \<and> replies t = map normal_reply (inline_list item @ rs))"
    by blast
  from Cons.IH[OF rest, of "normalized_threads @ [t]" calls1] obtain ts calls' where
    ts: "process_items up api_key include_replies m items (normalized_threads @ [t]) calls1
           = (Inr ((normalized_threads @ [t]) @ ts), calls')"
      "list_all2 (\<lambda>t item. threadId t = field (obj item) ''id'' JNull
             \<and> topLevelComment t = normal_top item
             \<and> replyCount t = reported_count item
             \<and> (\<exists>rs. list_all reply_ok rs
                   \<and> replies t = map normal_reply (inline_list item @ rs))) ts items"
    by blast
  from t ts show ?case
    by (intro exI[of _ "t # ts"] exI[of _ calls']) simp
qed

lemma fetch_ok:
  assumes all: "\<forall>hist. hist \<noteq> [] \<longrightarrow> endpoint (last hist) = YOUTUBE_API_BASE @ ''/comments''
                  \<longrightarrow> batch_ok (up hist)"
    and listing: "up (calls @ [thread_request video_id api_key max_results page_token order])
                    = Inr (JObj data)"
    and items: "py_iter (field data ''items'' (JArr [])) = Inr items"
    and shapes: "list_all (\<lambda>item. head_ok item \<and> inline_ok item \<and> count_ok (reported_count item)) items"
  shows "\<exists>ts calls'.
       fetch_comment_threads up video_id api_key max_results page_token order include_replies m
         calls =
       (Inr \<lparr>videoId = video_id, nextPageToken = field data ''nextPageToken'' JNull,
             threads = ts\<rparr>, calls')
       \<and> list_all2 (\<lambda>t item. threadId t = field (obj item) ''id'' JNull
             \<and> topLevelComment t = normal_top item
             \<and> replyCount t = reported_count item
             \<and> (\<exists>rs. list_all reply_ok rs
                   \<and> replies t = map normal_reply (inline_list item @ rs))) ts items"
proof -
  from process_items_ok[OF all shapes, of api_key include_replies m "[]"
      "calls @ [thread_request video_id api_key max_results page_token order]"]
  obtain ts calls' where ts:
    "process_items up api_key include_replies m items []
       (calls @ [thread_request video_id api_key max_results page_token order])
     = (Inr ts, calls')"
    "list_all2 (\<lambda>t item. threadId t = field (obj item) ''id'' JNull
             \<and> topLevelComment t = normal_top item
             \<and> replyCount t = reported_count item
             \<and> (\<exists>rs. list_all reply_ok rs
                   \<and> replies t = map normal_reply (inline_list item @ rs))) ts items"
    by auto
  have "fetch_comment_threads up video_id api_key max_results page_token order include_replies m
         calls =
       (Inr \<lparr>videoId = video_id, nextPageToken = field data ''nextPageToken'' JNull,
             threads = ts\<rparr>, calls')"
    using listing items ts(1)
    by (simp add: fetch_comment_threads_def http_get_def thread_request_def bind_result_def
        field_def)
  with ts(2) show ?thesis by blast
qed

lemma reply_loop_spent:
  "\<not> fetched < m \<Longrightarrow>
   reply_loop up api_key parent_id m fetched tok replies_payload calls = (Inr replies_payload, calls)"
  by (subst reply_loop_unfold) simp

lemma reply_loop_step:
  assumes budget: "fetched < m"
    and ok: "batch_ok (up (calls @ [reply_request api_key parent_id (min 100 (m - fetched)) tok]))"
  shows "reply_loop up api_key parent_id m fetched tok replies_payload calls =
     (if m \<le> fetched
             + int (length (listed (up (calls
                 @ [reply_request api_key parent_id (min 100 (m - fetched)) tok]))))
         \<or> \<not> truthy (continuation (up (calls
                 @ [reply_request api_key parent_id (min 100 (m - fetched)) tok])))
         \<or> listed (up (calls @ [reply_request api_key parent_id (min 100 (m - fetched)) tok])) = []
      then (Inr (replies_payload
                 @ map normal_reply (listed (up (calls
                     @ [reply_request api_key parent_id (min 100 (m - fetched)) tok])))),
            calls @ [reply_request api_key parent_id (min 100 (m - fetched)) tok])
      else reply_loop up api_key parent_id m
             (fetched + int (length (listed (up (calls
                 @ [reply_request api_key parent_id (min 100 (m - fetched)) tok])))))
             (continuation (up (calls
                 @ [reply_request api_key parent_id (min 100 (m - fetched)) tok])))
             (replies_payload
                 @ map normal_reply (listed (up (calls
                     @ [reply_request api_key parent_id (min 100 (m - fetched)) tok]))))
             (calls @ [reply_request api_key parent_id (min 100 (m - fetched)) tok]))"
proof -
  let ?r = "reply_request api_key parent_id (min 100 (m - fetched)) tok"
  let ?resp = "up (calls @ [?r])"
  let ?n = "int (length (listed ?resp))"
  from ok obtain rdata where rdata: "?resp = Inr rdata"
    by (cases ?resp) (auto simp: batch_ok_def)
  note rb = read_batch_exact[OF ok[unfolded rdata], of replies_payload, folded rdata]
  note ti = truthy_items[OF ok[unfolded rdata], folded rdata]
  have step: "reply_loop up api_key parent_id m fetched tok replies_payload calls =
     (if \<not> truthy (continuation ?resp) \<or> listed ?resp = []
      then (Inr (replies_payload @ map normal_reply (listed ?resp)), calls @ [?r])
      else reply_loop up api_key parent_id m (fetched + ?n) (continuation ?resp)
             (replies_payload @ map normal_reply (listed ?resp)) (calls @ [?r]))"
    using budget rdata rb ti
    by (subst reply_loop_unfold) auto
  have spent: "reply_loop up api_key parent_id m (fetched + ?n) (continuation ?resp)
             (replies_payload @ map normal_reply (listed ?resp)) (calls @ [?r])
           = (Inr (replies_payload @ map normal_reply (listed ?resp)), calls @ [?r])"
    if "m \<le> fetched + ?n"
    using that by (intro reply_loop_spent) simp
  show ?thesis
    unfolding step using spent by auto
qed

lemma reply_loop_first_call:
  assumes "fetched < m"
    and "reply_loop up api_key parent_id m fetched tok replies_payload calls = (res, calls')"
  shows "\<exists>rest. calls' = calls @ reply_request api_key parent_id (min 100 (m - fetched)) tok # rest"
proof -
  let ?r = "reply_request api_key parent_id (min 100 (m - fetched)) tok"
  show ?thesis
  proof (cases "up (calls @ [?r])")
    case (Inl msg)
    with assms show ?thesis by (auto simp: reply_loop_unfold)
  next
    case (Inr rdata)
    show ?thesis
    proof (cases "read_batch rdata replies_payload")
      case (Inl e)
      with assms Inr show ?thesis by (auto simp: reply_loop_unfold)
    next
      case rb: (Inr b)
      obtain ritems replies_payload' n tok' where b: "b = (ritems, replies_payload', n, tok')"
        by (cases b) auto
      show ?thesis
      proof (cases "\<not> truthy tok' \<or> \<not> truthy ritems")
        case True
        with assms Inr rb b show ?thesis by (auto simp: reply_loop_unfold)
      next
        case False
        with assms Inr rb b have "reply_loop up api_key parent_id m (fetched + n) tok'
            replies_payload' (calls @ [?r]) = (res, calls')"
          by (simp add: reply_loop_unfold)
        from reply_loop_trace[OF this] obtain reqs where "calls' = (calls @ [?r]) @ reqs"
          by blast
        then show ?thesis by simp
      qed
    qed
  qed
qed

lemma process_item_first_call:
  assumes "head_ok item" "inline_ok item" "reported_count item = JInt k"
    "int (length (inline_list item)) < k"
    and "0 < m"
    and run: "process_item up api_key True m item calls = (res, calls')"
  shows "\<exists>rest. calls' = calls @ reply_request api_key (c_id (normal_top item)) (min 100 m) JNull
                            # rest"
proof -
  obtain res' calls'' where loop: "reply_loop up api_key (c_id (normal_top item)) m 0 JNull
             (map normal_reply (inline_list item)) calls = (res', calls'')"
    by (cases "reply_loop up api_key (c_id (normal_top item)) m 0 JNull
             (map normal_reply (inline_list item)) calls") auto
  with run have "calls'' = calls'"
    unfolding process_item_enters_loop[OF assms(1-4)]
    by (cases res') auto
  with reply_loop_first_call[OF \<open>0 < m\<close> loop] show ?thesis
    by simp
qed

lemma fetched_replies_Nil: "fetched_replies up calls [] = []"
  by (simp add: fetched_replies_def)

lemma process_item_exact:
  assumes run: "process_item up api_key include_replies m item calls = (Inr t, calls @ seg)"
  shows "threadId t = field (obj item) ''id'' JNull \<and> topLevelComment t = normal_top item
     \<and> replyCount t = reported_count item
     \<and> replies t = map normal_reply (inline_list item) @ fetched_replies up calls seg
     \<and> (include_replies \<and> (\<exists>k. reported_count item = JInt k \<and> int (length (inline_list item)) < k)
          \<longrightarrow> loop_run up api_key (c_id (normal_top item)) m 0 JNull calls seg)"
proof -
  from process_item_Inr_shape[OF run] have h: "head_ok item" and i: "inline_ok item"
    by simp_all
  show ?thesis
  proof (cases "need_fetch include_replies (reported_count item) (length (inline_list item))")
    case (Inl e)
    have "process_item up api_key include_replies m item calls = (Inl e, calls)"
      unfolding process_item_def item_fields_exact inline_replies_payload_exact[OF i]
      by (simp only: h if_True sum.case prod.case length_map Inl)
    with run show ?thesis by simp
  next
    case (Inr b)
    show ?thesis
    proof (cases b)
      case False
      from Inr False
      have "need_fetch include_replies (reported_count item) (length (inline_list item))
              = Inr False"
        by simp
      from process_item_no_loop[OF h i this, of up api_key m calls] run
      have t: "t = \<lparr>threadId = field (obj item) ''id'' JNull, topLevelComment = normal_top item,
           replyCount = reported_count item,
           replies = map normal_reply (inline_list item)\<rparr>" and seg: "seg = []"
        by simp_all
      have "\<not> (include_replies
                \<and> (\<exists>k. reported_count item = JInt k \<and> int (length (inline_list item)) < k))"
        using Inr False by (auto simp: need_fetch_def)
      with t seg show ?thesis
        by (auto simp: fetched_replies_Nil)
    next
      case True
      from run obtain rp where loop: "reply_loop up api_key (c_id (normal_top item)) m 0 JNull
             (map normal_reply (inline_list item)) calls = (Inr rp, calls @ seg)"
        and t: "t = \<lparr>threadId = field (obj item) ''id'' JNull, topLevelComment = normal_top item,
               replyCount = reported_count item, replies = rp\<rparr>"
        unfolding process_item_start[OF h i Inr]
        by (auto simp: True split: prod.splits sum.splits)
      from loop[unfolded reply_loop_iff] obtain reqs where
        "calls @ seg = calls @ reqs"
        "loop_run up api_key (c_id (normal_top item)) m 0 JNull calls reqs"
        "rp = map normal_reply (inline_list item) @ fetched_replies up calls reqs"
        by blast
      with t show ?thesis by simp
    qed
  qed
qed

lemma loop_run_first:
  "loop_run up api_key parent_id m fetched tok calls seg \<Longrightarrow> fetched < m \<Longrightarrow>
   \<exists>rest. seg = reply_request api_key parent_id (min 100 (m - fetched)) tok # rest"
  by (cases seg) auto

lemma fetch_exact:
  assumes "fetch_comment_threads up video_id api_key max_results page_token order include_replies m
             calls = (Inr page, calls')"
  shows "list_all2 (\<lambda>t item. \<exists>pre seg post.
            calls' = calls @ thread_request video_id api_key max_results page_token order
                       # pre @ seg @ post
            \<and> process_item up api_key include_replies m item
                (calls @ thread_request video_id api_key max_results page_token order # pre)
                = (Inr t, calls @ thread_request video_id api_key max_results page_token order
                            # pre @ seg)
            \<and> threadId t = field (obj item) ''id'' JNull
            \<and> topLevelComment t = normal_top item
            \<and> replyCount t = reported_count item
            \<and> replies t = map normal_reply (inline_list item)
                 @ fetched_replies up
                     (calls @ thread_request video_id api_key max_results page_token order # pre)
                     seg
            \<and> (include_replies
                  \<and> (\<exists>k. reported_count item = JInt k \<and> int (length (inline_list item)) < k)
                \<longrightarrow> loop_run up api_key (c_id (normal_top item)) m 0 JNull
                      (calls @ thread_request video_id api_key max_results page_token order # pre)
                      seg))
           (threads page)
           (thread_items (up (calls @ [thread_request video_id api_key max_results page_token order])))"
  using fetch_runs_segments[OF assms]
proof (rule list_all2_mono)
  fix t item
  let ?treq = "thread_request video_id api_key max_results page_token order"
  assume "\<exists>pre seg post. calls' = calls @ ?treq # pre @ seg @ post
            \<and> process_item up api_key include_replies m item (calls @ ?treq # pre)
                = (Inr t, calls @ ?treq # pre @ seg)"
  then obtain pre seg post where d: "calls' = calls @ ?treq # pre @ seg @ post"
    and run: "process_item up api_key include_replies m item (calls @ ?treq # pre)
                = (Inr t, calls @ ?treq # pre @ seg)"
    by blast
  from run have "process_item up api_key include_replies m item (calls @ ?treq # pre)
                = (Inr t, (calls @ ?treq # pre) @ seg)"
    by simp
  note e = process_item_exact[OF this]
  show "\<exists>pre seg post.
            calls' = calls @ ?treq # pre @ seg @ post
            \<and> process_item up api_key include_replies m item (calls @ ?treq # pre)
                = (Inr t, calls @ ?treq # pre @ seg)
            \<and> threadId t = field (obj item) ''id'' JNull
            \<and> topLevelComment t = normal_top item
            \<and> replyCount t = reported_count item
            \<and> replies t = map normal_reply (inline_list item)
                 @ fetched_replies up (calls @ ?treq # pre) seg
            \<and> (include_replies
                  \<and> (\<exists>k. reported_count item = JInt k \<and> int (length (inline_list item)) < k)
                \<longrightarrow> loop_run up api_key (c_id (normal_top item)) m 0 JNull
                      (calls @ ?treq # pre) seg)"
    apply (rule exI[of _ pre])
    apply (rule exI[of _ seg])
    apply (rule exI[of _ post])
    apply (intro conjI)
          apply (rule d)
         apply (rule run)
        apply (rule e[THEN conjunct1])
       apply (rule e[THEN conjunct2, THEN conjunct1])
      apply (rule e[THEN conjunct2, THEN conjunct2, THEN conjunct1])
     apply (rule e[THEN conjunct2, THEN conjunct2, THEN conjunct2, THEN conjunct1])
    apply (rule e[THEN conjunct2, THEN conjunct2, THEN conjunct2, THEN conjunct2])
    done
qed

lemma thread_items_listing:
  "resp = Inr (JObj data) \<Longrightarrow> py_iter (field data ''items'' (JArr [])) = Inr items \<Longrightarrow>
   thread_items resp = items"
  by (simp add: thread_items_def bind_result_def py_get_conv is_obj_def obj_def)

lemma fetch_total:
  assumes all: "\<forall>hist. hist \<noteq> [] \<longrightarrow> endpoint (last hist) = YOUTUBE_API_BASE @ ''/comments''
                  \<longrightarrow> batch_ok (up hist)"
    and listing: "up (calls @ [thread_request video_id api_key max_results page_token order])
                    = Inr (JObj data)"
    and items: "py_iter (field data ''items'' (JArr [])) = Inr items"
    and shapes: "list_all (\<lambda>item. head_ok item \<and> inline_ok item \<and> count_ok (reported_count item)) items"
  shows "\<exists>ts calls'.
       fetch_comment_threads up video_id api_key max_results page_token order include_replies m
         calls =
       (Inr \<lparr>videoId = video_id, nextPageToken = field data ''nextPageToken'' JNull,
             threads = ts\<rparr>, calls')
       \<and> list_all2 (\<lambda>t item. threadId t = field (obj item) ''id'' JNull
             \<and> topLevelComment t = normal_top item
             \<and> replyCount t = reported_count item
             \<and> (\<exists>pre seg post.
                   calls' = calls @ thread_request video_id api_key max_results page_token order
                              # pre @ seg @ post
                   \<and> replies t = map normal_reply (inline_list item)
                        @ fetched_replies up
                            (calls @ thread_request video_id api_key max_results page_token order
                               # pre) seg)) ts items"
proof -
  let ?treq = "thread_request video_id api_key max_results page_token order"
  from fetch_ok[OF all listing items shapes, of include_replies m] obtain ts calls' where
    run: "fetch_comment_threads up video_id api_key max_results page_token order include_replies m
         calls =
       (Inr \<lparr>videoId = video_id, nextPageToken = field data ''nextPageToken'' JNull,
             threads = ts\<rparr>, calls')"
    by blast
  have "list_all2 (\<lambda>t item. threadId t = field (obj item) ''id'' JNull
             \<and> topLevelComment t = normal_top item
             \<and> replyCount t = reported_count item
             \<and> (\<exists>pre seg post.
                   calls' = calls @ ?treq # pre @ seg @ post
                   \<and> replies t = map normal_reply (inline_list item)
                        @ fetched_replies up (calls @ ?treq # pre) seg)) ts items"
    using fetch_exact[OF run, unfolded thread_items_listing[OF listing items]]
    by (simp add: list_all2_mono) (erule list_all2_mono, blast)
  with run show ?thesis by blast
qed

lemma field_missing: "map_of kvs k = None \<Longrightarrow> field kvs k dflt = dflt"
  by (simp add: field_def)


section \<open>Identifier Resolver: short links\<close>

lemma dropWhile_none: "\<forall>x \<in> set xs. \<not> P x \<Longrightarrow> dropWhile P xs = xs"
  by (cases xs) auto

lemma urlparse_short_link:
  assumes "\<forall>c \<in> set vid. c \<notin> set ''/?#;'' \<and> c \<notin> {CHR 0x09, CHR 0x0A, CHR 0x0D}"
  shows "urlparse ok (''https://youtu.be/'' @ vid) =
     Inr \<lparr>scheme = ''https'', netloc = ''youtu.be'', path = CHR ''/'' # vid, url_params = [],
          query = [], fragment = []\<rparr>"
proof -
  have f: "filter (\<lambda>c. c \<notin> {CHR 0x09, CHR 0x0D, CHR 0x0A}) vid = vid"
    using assms by (simp add: filter_id_conv)
  have h: "CHR ''#'' \<notin> set vid" "CHR ''?'' \<notin> set vid" "CHR '';'' \<notin> set vid"
    using assms by auto
  have s: "urlsplit ok (''https://youtu.be/'' @ vid) =
     Inr \<lparr>scheme = ''https'', netloc = ''youtu.be'', path = CHR ''/'' # vid, url_params = [],
          query = [], fragment = []\<rparr>"
    using h f by (simp add: urlsplit_def ascii_alpha_def scheme_chars_def str_lower_def
        lower_char_def splitnetloc_def Let_def)
  show ?thesis
    unfolding urlparse_def s using h by (simp add: uses_params_def)
qed

text \<open>
  C2, as the code has it. When the URL parser reports the netloc \<open>youtu.be\<close>, the result
  is the whole path with every leading slash stripped, and absent when nothing is left.
  For \<open>https://youtu.be/<id>\<close>, where \<open><id>\<close> is a single path segment (it has none of
  \<open>/\<close>, \<open>?\<close>, \<open>#\<close>, \<open>;\<close>, tab, line feed, carriage return), that is \<open><id>\<close> itself, and absent
  when \<open><id>\<close> is empty.
\<close>

theorem extract_short_link:
  "(urlparse (bracketed_host_ok lib) url = Inr p \<longrightarrow> netloc p = ''youtu.be'' \<longrightarrow>
      extract_video_id_from_url lib url =
        (if lstrip_chars ''/'' (path p) = [] then None else Some (lstrip_chars ''/'' (path p))))
   \<and> ((\<forall>c \<in> set vid. c \<notin> set ''/?#;'' \<and> c \<notin> {CHR 0x09, CHR 0x0A, CHR 0x0D}) \<longrightarrow>
      extract_video_id_from_url lib (''https://youtu.be/'' @ vid) =
        (if vid = [] then None else Some vid))"
proof (intro conjI impI)
  assume "urlparse (bracketed_host_ok lib) url = Inr p" "netloc p = ''youtu.be''"
  then show "extract_video_id_from_url lib url =
        (if lstrip_chars ''/'' (path p) = [] then None else Some (lstrip_chars ''/'' (path p)))"
    by (simp add: extract_video_id_from_url_def Let_def)
next
  assume a: "\<forall>c \<in> set vid. c \<notin> set ''/?#;'' \<and> c \<notin> {CHR 0x09, CHR 0x0A, CHR 0x0D}"
  then have "dropWhile (\<lambda>c. c = CHR ''/'') vid = vid"
    by (intro dropWhile_none) auto
  then show "extract_video_id_from_url lib (''https://youtu.be/'' @ vid) =
        (if vid = [] then None else Some vid)"
    unfolding extract_video_id_from_url_def urlparse_short_link[OF a]
    by (simp add: lstrip_chars_def)
qed

theorem extract_short_link_witness:
  "extract_video_id_from_url plain_lib ''https://youtu.be/dQw4w9WgXcQ'' = Some ''dQw4w9WgXcQ''
   \<and> extract_video_id_from_url plain_lib ''https://youtu.be/'' = None
   \<and> extract_video_id_from_url plain_lib ''//youtu.be//a/b;c?t=1#x'' = Some ''a/b''"
proof -
  have p: "urlparse (bracketed_host_ok plain_lib) ''//youtu.be//a/b;c?t=1#x'' =
      Inr \<lparr>scheme = [], netloc = ''youtu.be'', path = ''//a/b'', url_params = ''c'',
           query = ''t=1'', fragment = ''x''\<rparr>"
    by code_simp
  show ?thesis
    using p
      extract_short_link[of plain_lib "''//youtu.be//a/b;c?t=1#x''"
        "\<lparr>scheme = [], netloc = ''youtu.be'', path = ''//a/b'', url_params = ''c'',
           query = ''t=1'', fragment = ''x''\<rparr>" "''dQw4w9WgXcQ''"]
      extract_short_link[of plain_lib "[]" undefined "[]"]
    by (simp add: lstrip_chars_def)
qed

text \<open>
  C2, as the spec states it, fails on a path of two segments: the first path segment of
  \<open>https://youtu.be/abc/def\<close> is \<open>abc\<close>, and the code returns \<open>abc/def\<close>.
\<close>

theorem extract_first_segment_counterexample:
  "extract_video_id_from_url plain_lib ''https://youtu.be/abc/def'' = Some ''abc/def''
   \<and> first_path_segment ''/abc/def'' = ''abc''
   \<and> extract_video_id_from_url plain_lib ''https://youtu.be/abc/def''
       \<noteq> Some (first_path_segment ''/abc/def'')"
  by code_simp


section \<open>Parameter Normalizer\<close>

lemma str_lower_relevance: "str_lower ''relevance'' = ''relevance''"
  by (simp add: str_lower_def lower_char_def)

text \<open>
  C6. For an integer \<open>n\<close> the effective maximum is \<open>n\<close> clamped into 1 to 100: 1 below 1,
  100 above 100, \<open>n\<close> otherwise. For an absent \<open>maxResults\<close> it is 20.
\<close>

theorem normalize_params_max:
  "fst (normalize_params (Some n) order) = (if n < 1 then 1 else if 100 < n then 100 else n)
   \<and> fst (normalize_params None order) = 20"
  by (simp add: normalize_params_def Let_def)

theorem normalize_params_max_witness:
  "fst (normalize_params (Some 500) None) = 100
   \<and> fst (normalize_params (Some (- 3)) (Some ''time'')) = 1
   \<and> fst (normalize_params (Some 42) None) = 42
   \<and> fst (normalize_params None None) = 20"
  using normalize_params_max[of 500 None] normalize_params_max[of "- 3" "Some ''time''"]
    normalize_params_max[of 42 None]
  by simp

text \<open>
  C7. The effective order is always \<open>relevance\<close> or \<open>time\<close>. An absent order gives
  \<open>relevance\<close>; a given order gives \<open>time\<close> when its lower-case form is \<open>time\<close>, and
  \<open>relevance\<close> in every other case. The function has no error result.
\<close>

theorem normalize_params_order:
  "snd (normalize_params mr order) \<in> {''relevance'', ''time''}
   \<and> snd (normalize_params mr None) = ''relevance''
   \<and> snd (normalize_params mr (Some s)) =
        (if s \<noteq> [] \<and> str_lower s = ''time'' then ''time'' else ''relevance'')"
  by (simp add: normalize_params_def Let_def str_lower_relevance split: option.splits)

theorem normalize_params_order_witness:
  "snd (normalize_params None (Some ''TiMe'')) = ''time''
   \<and> snd (normalize_params None (Some ''Relevance'')) = ''relevance''
   \<and> snd (normalize_params None (Some ''newest'')) = ''relevance''
   \<and> snd (normalize_params (Some 5) None) = ''relevance''"
proof -
  have "str_lower ''TiMe'' = ''time''" "str_lower ''Relevance'' \<noteq> ''time''"
    "str_lower ''newest'' \<noteq> ''time''"
    by code_simp+
  then show ?thesis
    using normalize_params_order[of None _ "''TiMe''"]
      normalize_params_order[of None _ "''Relevance''"]
      normalize_params_order[of None _ "''newest''"]
      normalize_params_order[of "Some 5" None]
    by simp
qed


section \<open>Thread Aggregator: threads without fetched replies\<close>





text \<open>
  C10. \<open>_parse_query\<close> hands the integer of \<open>maxRepliesPerThread\<close> on as it is read, with no
  clamping. With \<open>max_replies_per_thread \<le> 0\<close> the loop body never runs: the only upstream
  call is the thread listing, and the replies of each thread are exactly its inline
  replies, also when \<open>include_replies\<close> is set and the reported reply count is larger.
\<close>

theorem no_reply_calls_without_budget:
  "(urlparse (bracketed_host_ok lib) request_path = Inr parsed \<longrightarrow>
      get_one (parse_qs lib (query parsed)) ''maxRepliesPerThread'' = s \<longrightarrow> s \<noteq> [] \<longrightarrow>
      int_of_str lib s = Some n \<longrightarrow> parse_query lib request_path = Inr q \<longrightarrow>
      q_maxRepliesPerThread q = n)
   \<and> (m \<le> 0 \<longrightarrow>
        fetch_comment_threads up video_id api_key max_results page_token order include_replies m
          calls = (res, calls') \<longrightarrow>
        calls' = calls @ [thread_request video_id api_key max_results page_token order]
        \<and> (\<forall>page. res = Inr page \<longrightarrow>
              map inline_replies_payload (thread_items (up calls')) =
                map (\<lambda>t. Inr (replies t)) (threads page)))"
proof (intro conjI impI)
  assume "urlparse (bracketed_host_ok lib) request_path = Inr parsed"
    "get_one (parse_qs lib (query parsed)) ''maxRepliesPerThread'' = s" "s \<noteq> []"
    "int_of_str lib s = Some n" "parse_query lib request_path = Inr q"
  then show "q_maxRepliesPerThread q = n"
    by (auto simp: parse_query_def Let_def bind_result_eq_Inr split: if_splits)
next
  assume "m \<le> 0"
    "fetch_comment_threads up video_id api_key max_results page_token order include_replies m
       calls = (res, calls')"
  then have *: "calls' = calls @ [thread_request video_id api_key max_results page_token order] \<and>
         (\<forall>page. res = Inr page \<longrightarrow>
            map inline_replies_payload (thread_items (up calls')) =
              map (\<lambda>t. Inr (replies t)) (threads page))"
    by (intro fetch_no_fetch) simp_all
  from * show "calls' = calls @ [thread_request video_id api_key max_results page_token order]"
    by (rule conjunct1)
  from * show "\<forall>page. res = Inr page \<longrightarrow>
              map inline_replies_payload (thread_items (up calls')) =
                map (\<lambda>t. Inr (replies t)) (threads page)"
    by (rule conjunct2)
qed

lemma demo_query_negative:
  "urlparse (bracketed_host_ok plain_lib)
       ''/api/comments?videoId=abc&includeReplies=1&maxRepliesPerThread=-3''
     = Inr \<lparr>scheme = [], netloc = [], path = ''/api/comments'', url_params = [],
            query = ''videoId=abc&includeReplies=1&maxRepliesPerThread=-3'', fragment = []\<rparr>"
  "get_one (parse_qs plain_lib ''videoId=abc&includeReplies=1&maxRepliesPerThread=-3'')
     ''maxRepliesPerThread'' = ''-3''"
  "int_of_str plain_lib ''-3'' = Some (- 3)"
  "parse_query plain_lib ''/api/comments?videoId=abc&includeReplies=1&maxRepliesPerThread=-3''
     = Inr \<lparr>q_url = [], q_videoId = ''abc'', q_pageToken = None, q_order = None,
            q_includeReplies = True, q_maxResults = None, q_maxRepliesPerThread = - 3\<rparr>"
  by code_simp+

lemma demo_run_negative:
  "fetch_comment_threads (demo_upstream 50 2 100) ''abc'' ''k'' 20 None ''relevance'' True (- 3) []
     = (Inr \<lparr>videoId = ''abc'', nextPageToken = JNull,
              threads = [\<lparr>threadId = JStr ''t1'', topLevelComment = demo_top,
                          replyCount = JInt 50, replies = [demo_comment 0, demo_comment 1]\<rparr>]\<rparr>,
        [thread_request ''abc'' ''k'' 20 None ''relevance''])"
  by code_simp

theorem no_reply_calls_without_budget_witness:
  "q_maxRepliesPerThread
     \<lparr>q_url = [], q_videoId = ''abc'', q_pageToken = None, q_order = None,
      q_includeReplies = True, q_maxResults = None, q_maxRepliesPerThread = - 3\<rparr> = - 3
   \<and> fetch_comment_threads (demo_upstream 50 2 100) ''abc'' ''k'' 20 None ''relevance'' True (- 3) []
     = (Inr \<lparr>videoId = ''abc'', nextPageToken = JNull,
              threads = [\<lparr>threadId = JStr ''t1'', topLevelComment = demo_top,
                          replyCount = JInt 50, replies = [demo_comment 0, demo_comment 1]\<rparr>]\<rparr>,
        [thread_request ''abc'' ''k'' 20 None ''relevance''])
   \<and> map inline_replies_payload
         (thread_items (demo_upstream 50 2 100 [thread_request ''abc'' ''k'' 20 None ''relevance'']))
       = [Inr [demo_comment 0, demo_comment 1]]"
  using no_reply_calls_without_budget[of plain_lib
      "''/api/comments?videoId=abc&includeReplies=1&maxRepliesPerThread=-3''" _ "''-3''" "- 3" _
      "- 3" "demo_upstream 50 2 100" "''abc''" "''k''" 20 None "''relevance''" True "[]"]
    demo_query_negative demo_run_negative
  by simp

section \<open>Thread Aggregator: the reply loop\<close>

text \<open>
  \<open>process_item\<close> is the body of the loop over the thread items: every thread of a page is
  the result of one run of it on the item at the same place (\<open>fetch_runs_process_item\<close>).
  The calls a run makes are the reply-listing calls of that thread.
\<close>

text \<open>
  C3. Take a thread item that reports more replies than it carries inline, processed with
  \<open>include_replies\<close>. The run returns a thread exactly when the calls it makes are the
  reply-listing calls of the loop, started with no reply fetched and no token and each
  answered by a well-formed batch; the replies of the thread are then the inline replies,
  normalised, followed by the replies of each batch in the order of the calls. Nothing is
  removed: a fetched reply stays even when an inline reply has the same id. With a
  positive budget the first reply-listing call is made whatever the upstream answers.
  Every thread of a page that \<open>fetch_comment_threads\<close> returns with \<open>include_replies\<close> is the
  result of one run of \<open>process_item\<close> on the item at the same place, its replies are the
  inline replies followed by the replies fetched by the calls of that run, and when the
  item reports more replies than it carries inline these calls are those of the loop.
  An item that reports no more replies than it carries inline gets no reply-listing call:
  its replies are the inline ones.
\<close>

theorem fetched_replies_appended:
  "(head_ok item \<and> inline_ok item \<and> reported_count item = JInt k
      \<and> int (length (inline_list item)) < k \<longrightarrow>
      (process_item up api_key True m item calls = (Inr t, calls') \<longleftrightarrow>
         (\<exists>reqs. calls' = calls @ reqs
            \<and> loop_run up api_key (c_id (normal_top item)) m 0 JNull calls reqs
            \<and> t = \<lparr>threadId = field (obj item) ''id'' JNull, topLevelComment = normal_top item,
                   replyCount = JInt k,
                   replies = map normal_reply (inline_list item)
                               @ fetched_replies up calls reqs\<rparr>))
      \<and> (0 < m \<longrightarrow> process_item up api_key True m item calls = (res, calls1) \<longrightarrow>
           (\<exists>rest. calls1 = calls @ reply_request api_key (c_id (normal_top item)) (min 100 m) JNull
                                  # rest)))
   \<and> (fetch_comment_threads up video_id api_key max_results page_token order True m calls
         = (Inr page, calls2) \<longrightarrow>
       list_all2 (\<lambda>t item. \<exists>pre seg post.
            calls2 = calls @ thread_request video_id api_key max_results page_token order
                       # pre @ seg @ post
            \<and> process_item up api_key True m item
                (calls @ thread_request video_id api_key max_results page_token order # pre)
                = (Inr t, calls @ thread_request video_id api_key max_results page_token order
                            # pre @ seg)
            \<and> replies t = map normal_reply (inline_list item)
                 @ fetched_replies up
                     (calls @ thread_request video_id api_key max_results page_token order # pre)
                     seg
            \<and> ((\<exists>k. reported_count item = JInt k \<and> int (length (inline_list item)) < k)
                \<longrightarrow> loop_run up api_key (c_id (normal_top item)) m 0 JNull
                      (calls @ thread_request video_id api_key max_results page_token order # pre)
                      seg
                    \<and> (0 < m \<longrightarrow>
                         (\<exists>rest. seg = reply_request api_key (c_id (normal_top item)) (min 100 m)
                                         JNull # rest))))
         (threads page)
         (thread_items (up (calls
            @ [thread_request video_id api_key max_results page_token order]))))
   \<and> (head_ok item \<and> inline_ok item \<and> reported_count item = JInt k
         \<and> k \<le> int (length (inline_list item)) \<longrightarrow>
       process_item up api_key True m item calls =
         (Inr \<lparr>threadId = field (obj item) ''id'' JNull, topLevelComment = normal_top item,
               replyCount = JInt k, replies = map normal_reply (inline_list item)\<rparr>,
          calls))"
proof (intro conjI impI)
  assume a: "head_ok item \<and> inline_ok item \<and> reported_count item = JInt k
      \<and> int (length (inline_list item)) < k"
  then show "process_item up api_key True m item calls = (Inr t, calls') \<longleftrightarrow>
         (\<exists>reqs. calls' = calls @ reqs
            \<and> loop_run up api_key (c_id (normal_top item)) m 0 JNull calls reqs
            \<and> t = \<lparr>threadId = field (obj item) ''id'' JNull, topLevelComment = normal_top item,
                   replyCount = JInt k,
                   replies = map normal_reply (inline_list item)
                               @ fetched_replies up calls reqs\<rparr>)"
    by (intro process_item_fetch_iff) simp_all
next
  assume a: "head_ok item \<and> inline_ok item \<and> reported_count item = JInt k
      \<and> int (length (inline_list item)) < k"
    and m: "0 < m" and run: "process_item up api_key True m item calls = (res, calls1)"
  from a have "head_ok item" "inline_ok item" "reported_count item = JInt k"
    "int (length (inline_list item)) < k"
    by simp_all
  from process_item_first_call[OF this m run]
  show "\<exists>rest. calls1 = calls @ reply_request api_key (c_id (normal_top item)) (min 100 m) JNull
                                  # rest" .
next
  let ?treq = "thread_request video_id api_key max_results page_token order"
  assume "fetch_comment_threads up video_id api_key max_results page_token order True m calls
         = (Inr page, calls2)"
  from fetch_exact[OF this]
  show "list_all2 (\<lambda>t item. \<exists>pre seg post.
            calls2 = calls @ ?treq # pre @ seg @ post
            \<and> process_item up api_key True m item (calls @ ?treq # pre)
                = (Inr t, calls @ ?treq # pre @ seg)
            \<and> replies t = map normal_reply (inline_list item)
                 @ fetched_replies up (calls @ ?treq # pre) seg
            \<and> ((\<exists>k. reported_count item = JInt k \<and> int (length (inline_list item)) < k)
                \<longrightarrow> loop_run up api_key (c_id (normal_top item)) m 0 JNull
                      (calls @ ?treq # pre) seg
                    \<and> (0 < m \<longrightarrow>
                         (\<exists>rest. seg = reply_request api_key (c_id (normal_top item)) (min 100 m)
                                         JNull # rest))))
         (threads page) (thread_items (up (calls @ [?treq])))"
  proof (rule list_all2_mono)
    fix t item
    assume "\<exists>pre seg post.
            calls2 = calls @ ?treq # pre @ seg @ post
            \<and> process_item up api_key True m item (calls @ ?treq # pre)
                = (Inr t, calls @ ?treq # pre @ seg)
            \<and> threadId t = field (obj item) ''id'' JNull
            \<and> topLevelComment t = normal_top item
            \<and> replyCount t = reported_count item
            \<and> replies t = map normal_reply (inline_list item)
                 @ fetched_replies up (calls @ ?treq # pre) seg
            \<and> (True
                  \<and> (\<exists>k. reported_count item = JInt k \<and> int (length (inline_list item)) < k)
                \<longrightarrow> loop_run up api_key (c_id (normal_top item)) m 0 JNull
                      (calls @ ?treq # pre) seg)"
    then obtain pre seg post where d: "calls2 = calls @ ?treq # pre @ seg @ post"
      and run: "process_item up api_key True m item (calls @ ?treq # pre)
                = (Inr t, calls @ ?treq # pre @ seg)"
      and rs: "replies t = map normal_reply (inline_list item)
                 @ fetched_replies up (calls @ ?treq # pre) seg"
      and lr: "(\<exists>k. reported_count item = JInt k \<and> int (length (inline_list item)) < k)
                \<Longrightarrow> loop_run up api_key (c_id (normal_top item)) m 0 JNull
                      (calls @ ?treq # pre) seg"
      by blast
    have first: "\<exists>rest. seg = reply_request api_key (c_id (normal_top item)) (min 100 m)
                                         JNull # rest"
      if "\<exists>k. reported_count item = JInt k \<and> int (length (inline_list item)) < k" "0 < m"
      using loop_run_first[OF lr[OF that(1)] that(2)] by simp
    from d run rs lr first
    show "\<exists>pre seg post.
            calls2 = calls @ ?treq # pre @ seg @ post
            \<and> process_item up api_key True m item (calls @ ?treq # pre)
                = (Inr t, calls @ ?treq # pre @ seg)
            \<and> replies t = map normal_reply (inline_list item)
                 @ fetched_replies up (calls @ ?treq # pre) seg
            \<and> ((\<exists>k. reported_count item = JInt k \<and> int (length (inline_list item)) < k)
                \<longrightarrow> loop_run up api_key (c_id (normal_top item)) m 0 JNull
                      (calls @ ?treq # pre) seg
                    \<and> (0 < m \<longrightarrow>
                         (\<exists>rest. seg = reply_request api_key (c_id (normal_top item)) (min 100 m)
                                         JNull # rest)))"
      apply -
      apply (rule exI[of _ pre])
      apply (rule exI[of _ seg])
      apply (rule exI[of _ post])
      apply (intro conjI impI)
          apply assumption+
      done
  qed
next
  assume a: "head_ok item \<and> inline_ok item \<and> reported_count item = JInt k
         \<and> k \<le> int (length (inline_list item))"
  then have nf: "need_fetch True (reported_count item) (length (inline_list item)) = Inr False"
    by (simp add: need_fetch_def)
  from a have "head_ok item" "inline_ok item"
    by simp_all
  from process_item_no_loop[OF this nf, of up api_key m calls] a
  show "process_item up api_key True m item calls =
         (Inr \<lparr>threadId = field (obj item) ''id'' JNull, topLevelComment = normal_top item,
               replyCount = JInt k, replies = map normal_reply (inline_list item)\<rparr>,
          calls)"
    by simp
qed

lemma demo_thread_shape:
  "head_ok (demo_thread 5 2)"
  "inline_ok (demo_thread 5 2)"
  "reported_count (demo_thread 5 2) = JInt 5"
  "int (length (inline_list (demo_thread 5 2))) < 5"
  "field (obj (demo_thread 5 2)) ''id'' JNull = JStr ''t1''"
  "normal_top (demo_thread 5 2) = demo_top"
  "c_id (normal_top (demo_thread 5 2)) = JStr ''c1''"
  "map normal_reply (inline_list (demo_thread 5 2)) = [demo_comment 0, demo_comment 1]"
  by code_simp+

lemma demo_thread_loop:
  "loop_run (demo_upstream 5 2 2) ''k'' (JStr ''c1'') 20 0 JNull []
     [reply_request ''k'' (JStr ''c1'') 20 JNull,
      reply_request ''k'' (JStr ''c1'') 18 (JStr ''more''),
      reply_request ''k'' (JStr ''c1'') 16 (JStr ''more'')]"
  "fetched_replies (demo_upstream 5 2 2) []
     [reply_request ''k'' (JStr ''c1'') 20 JNull,
      reply_request ''k'' (JStr ''c1'') 18 (JStr ''more''),
      reply_request ''k'' (JStr ''c1'') 16 (JStr ''more'')]
     = [demo_comment 0, demo_comment 1, demo_comment 2, demo_comment 3, demo_comment 4]"
  "c_id (demo_comment 0) = JStr ''r00''"
  "c_id (demo_comment 1) = JStr ''r01''"
  by code_simp+

lemma demo_fetch_duplicates:
  "fetch_comment_threads (demo_upstream 5 2 2) ''v'' ''k'' 20 None ''relevance'' True 20 []
     = (Inr \<lparr>videoId = ''v'', nextPageToken = JNull,
              threads = [\<lparr>threadId = JStr ''t1'', topLevelComment = demo_top,
                          replyCount = JInt 5,
                          replies = [demo_comment 0, demo_comment 1, demo_comment 0,
                                     demo_comment 1, demo_comment 2, demo_comment 3,
                                     demo_comment 4]\<rparr>]\<rparr>,
        [thread_request ''v'' ''k'' 20 None ''relevance'',
         reply_request ''k'' (JStr ''c1'') 20 JNull,
         reply_request ''k'' (JStr ''c1'') 18 (JStr ''more''),
         reply_request ''k'' (JStr ''c1'') 16 (JStr ''more'')])"
  by code_simp

lemma demo_thread_full:
  "head_ok (demo_thread 2 2) \<and> inline_ok (demo_thread 2 2)
   \<and> reported_count (demo_thread 2 2) = JInt 2
   \<and> 2 \<le> int (length (inline_list (demo_thread 2 2)))"
  "field (obj (demo_thread 2 2)) ''id'' JNull = JStr ''t1''"
  "normal_top (demo_thread 2 2) = demo_top"
  "map normal_reply (inline_list (demo_thread 2 2)) = [demo_comment 0, demo_comment 1]"
  by code_simp+

theorem fetched_replies_appended_witness:
  "head_ok (demo_thread 5 2) \<and> inline_ok (demo_thread 5 2)
   \<and> reported_count (demo_thread 5 2) = JInt 5
   \<and> int (length (inline_list (demo_thread 5 2))) < 5
   \<and> map normal_reply (inline_list (demo_thread 5 2)) = [demo_comment 0, demo_comment 1]
   \<and> loop_run (demo_upstream 5 2 2) ''k'' (c_id (normal_top (demo_thread 5 2))) 20 0 JNull []
        [reply_request ''k'' (JStr ''c1'') 20 JNull,
         reply_request ''k'' (JStr ''c1'') 18 (JStr ''more''),
         reply_request ''k'' (JStr ''c1'') 16 (JStr ''more'')]
   \<and> fetched_replies (demo_upstream 5 2 2) []
        [reply_request ''k'' (JStr ''c1'') 20 JNull,
         reply_request ''k'' (JStr ''c1'') 18 (JStr ''more''),
         reply_request ''k'' (JStr ''c1'') 16 (JStr ''more'')]
       = [demo_comment 0, demo_comment 1, demo_comment 2, demo_comment 3, demo_comment 4]
   \<and> process_item (demo_upstream 5 2 2) ''k'' True 20 (demo_thread 5 2) []
       = (Inr \<lparr>threadId = JStr ''t1'', topLevelComment = demo_top, replyCount = JInt 5,
                replies = [demo_comment 0, demo_comment 1]
                          @ [demo_comment 0, demo_comment 1, demo_comment 2, demo_comment 3,
                             demo_comment 4]\<rparr>,
          [] @ [reply_request ''k'' (JStr ''c1'') 20 JNull,
                reply_request ''k'' (JStr ''c1'') 18 (JStr ''more''),
                reply_request ''k'' (JStr ''c1'') 16 (JStr ''more'')])
   \<and> (\<exists>rest. [] @ [reply_request ''k'' (JStr ''c1'') 20 JNull,
                     reply_request ''k'' (JStr ''c1'') 18 (JStr ''more''),
                     reply_request ''k'' (JStr ''c1'') 16 (JStr ''more'')]
          = [] @ reply_request ''k'' (c_id (normal_top (demo_thread 5 2))) (min 100 20) JNull
                 # rest)
   \<and> c_id (demo_comment 0) = JStr ''r00'' \<and> c_id (demo_comment 1) = JStr ''r01''
   \<and> fetch_comment_threads (demo_upstream 5 2 2) ''v'' ''k'' 20 None ''relevance'' True 20 []
       = (Inr \<lparr>videoId = ''v'', nextPageToken = JNull,
                threads = [\<lparr>threadId = JStr ''t1'', topLevelComment = demo_top,
                            replyCount = JInt 5,
                            replies = [demo_comment 0, demo_comment 1, demo_comment 0,
                                       demo_comment 1, demo_comment 2, demo_comment 3,
                                       demo_comment 4]\<rparr>]\<rparr>,
          [thread_request ''v'' ''k'' 20 None ''relevance'',
           reply_request ''k'' (JStr ''c1'') 20 JNull,
           reply_request ''k'' (JStr ''c1'') 18 (JStr ''more''),
           reply_request ''k'' (JStr ''c1'') 16 (JStr ''more'')])
   \<and> head_ok (demo_thread 2 2) \<and> inline_ok (demo_thread 2 2)
   \<and> reported_count (demo_thread 2 2) = JInt 2
   \<and> 2 \<le> int (length (inline_list (demo_thread 2 2)))
   \<and> process_item (demo_upstream 2 2 2) ''k'' True 20 (demo_thread 2 2) []
       = (Inr \<lparr>threadId = JStr ''t1'', topLevelComment = demo_top, replyCount = JInt 2,
                replies = [demo_comment 0, demo_comment 1]\<rparr>, [])"
proof -
  let ?reqs = "[reply_request ''k'' (JStr ''c1'') 20 JNull,
                reply_request ''k'' (JStr ''c1'') 18 (JStr ''more''),
                reply_request ''k'' (JStr ''c1'') 16 (JStr ''more'')]"
  let ?t = "\<lparr>threadId = JStr ''t1'', topLevelComment = demo_top, replyCount = JInt 5,
                replies = [demo_comment 0, demo_comment 1]
                          @ [demo_comment 0, demo_comment 1, demo_comment 2, demo_comment 3,
                             demo_comment 4]\<rparr>"
  have shape: "head_ok (demo_thread 5 2) \<and> inline_ok (demo_thread 5 2)
      \<and> reported_count (demo_thread 5 2) = JInt 5
      \<and> int (length (inline_list (demo_thread 5 2))) < 5"
    using demo_thread_shape(1-4) by (intro conjI)
  have loop: "loop_run (demo_upstream 5 2 2) ''k'' (c_id (normal_top (demo_thread 5 2))) 20 0
      JNull [] ?reqs"
    unfolding demo_thread_shape(7) by (rule demo_thread_loop(1))
  have "\<exists>reqs. [] @ ?reqs = [] @ reqs
      \<and> loop_run (demo_upstream 5 2 2) ''k'' (c_id (normal_top (demo_thread 5 2))) 20 0 JNull []
           reqs
      \<and> ?t = \<lparr>threadId = field (obj (demo_thread 5 2)) ''id'' JNull,
               topLevelComment = normal_top (demo_thread 5 2), replyCount = JInt 5,
               replies = map normal_reply (inline_list (demo_thread 5 2))
                           @ fetched_replies (demo_upstream 5 2 2) [] reqs\<rparr>"
    apply (rule exI[of _ ?reqs])
    apply (intro conjI)
      apply (rule refl)
     apply (rule loop)
    apply (simp only: demo_thread_shape demo_thread_loop)
    done
  with fetched_replies_appended[of "demo_thread 5 2" 5 "demo_upstream 5 2 2" "''k''" 20 "[]"
      ?t "[] @ ?reqs", THEN conjunct1, THEN mp, OF shape, THEN conjunct1]
  have run: "process_item (demo_upstream 5 2 2) ''k'' True 20 (demo_thread 5 2) []
       = (Inr ?t, [] @ ?reqs)"
    by (rule iffD2)
  have m: "(0::int) < 20"
    by simp
  note first = fetched_replies_appended[of "demo_thread 5 2" 5 "demo_upstream 5 2 2" "''k''" 20
      "[]", THEN conjunct1, THEN mp, OF shape, THEN conjunct2, THEN mp, THEN mp, OF m run]
  have full: "process_item (demo_upstream 2 2 2) ''k'' True 20 (demo_thread 2 2) []
       = (Inr \<lparr>threadId = JStr ''t1'', topLevelComment = demo_top, replyCount = JInt 2,
                replies = [demo_comment 0, demo_comment 1]\<rparr>, [])"
    using fetched_replies_appended[of "demo_thread 2 2" 2 "demo_upstream 2 2 2" "''k''" 20 "[]",
        THEN conjunct2, THEN conjunct2, THEN mp, OF demo_thread_full(1)]
    by (simp only: demo_thread_full)
  from shape loop run first full demo_thread_full(1) demo_thread_shape(8) demo_thread_loop(2,3,4)
    demo_fetch_duplicates
  show ?thesis
    by (intro conjI) (simp_all only: simp_thms)
qed






text \<open>
  C4, as the code has it. The loop counts the replies it has fetched itself, from zero:
  \<open>process_item\<close> starts it with \<open>fetched = 0\<close>, no token and the inline replies as payload,
  and the inline replies are never counted. \<open>reply_loop\<close> is a total function (its
  termination proof is that every round that goes on has fetched at least one reply, so
  \<open>max_replies_per_thread - fetched\<close> falls) and, whatever the upstream answers and whether
  it returns or raises, it makes at most \<open>max(0, max_replies_per_thread - fetched)\<close> calls.
  With the budget spent it makes no call. Otherwise it makes one call, and after a
  well-formed batch it stops exactly when the fetched count has reached the budget, or
  the response has no continuation token, or the batch is empty; after any other
  well-formed batch it goes on with the next call. In particular a response without a
  continuation token ends the loop after that batch, whatever budget is left. So the
  loop returns normally exactly when its calls are those described by \<open>loop_run\<close>.
\<close>

theorem reply_loop_terminates:
  "(reply_loop up api_key parent_id m fetched tok replies_payload calls = (res, calls') \<longrightarrow>
      (\<exists>reqs. calls' = calls @ reqs \<and> int (length reqs) \<le> max 0 (m - fetched)))
   \<and> (\<not> fetched < m \<longrightarrow>
        reply_loop up api_key parent_id m fetched tok replies_payload calls
          = (Inr replies_payload, calls))
   \<and> (fetched < m \<longrightarrow>
        batch_ok (up (calls @ [reply_request api_key parent_id (min 100 (m - fetched)) tok])) \<longrightarrow>
        reply_loop up api_key parent_id m fetched tok replies_payload calls =
          (if m \<le> fetched
                  + int (length (listed (up (calls
                      @ [reply_request api_key parent_id (min 100 (m - fetched)) tok]))))
              \<or> \<not> truthy (continuation (up (calls
                      @ [reply_request api_key parent_id (min 100 (m - fetched)) tok])))
              \<or> listed (up (calls
                      @ [reply_request api_key parent_id (min 100 (m - fetched)) tok])) = []
           then (Inr (replies_payload
                      @ map normal_reply (listed (up (calls
                          @ [reply_request api_key parent_id (min 100 (m - fetched)) tok])))),
                 calls @ [reply_request api_key parent_id (min 100 (m - fetched)) tok])
           else reply_loop up api_key parent_id m
                  (fetched + int (length (listed (up (calls
                      @ [reply_request api_key parent_id (min 100 (m - fetched)) tok])))))
                  (continuation (up (calls
                      @ [reply_request api_key parent_id (min 100 (m - fetched)) tok])))
                  (replies_payload
                      @ map normal_reply (listed (up (calls
                          @ [reply_request api_key parent_id (min 100 (m - fetched)) tok]))))
                  (calls @ [reply_request api_key parent_id (min 100 (m - fetched)) tok])))
   \<and> (fetched < m \<longrightarrow>
        batch_ok (up (calls @ [reply_request api_key parent_id (min 100 (m - fetched)) tok])) \<longrightarrow>
        \<not> truthy (continuation (up (calls
              @ [reply_request api_key parent_id (min 100 (m - fetched)) tok]))) \<longrightarrow>
        reply_loop up api_key parent_id m fetched tok replies_payload calls =
          (Inr (replies_payload
                @ map normal_reply (listed (up (calls
                    @ [reply_request api_key parent_id (min 100 (m - fetched)) tok])))),
           calls @ [reply_request api_key parent_id (min 100 (m - fetched)) tok]))
   \<and> (reply_loop up api_key parent_id m fetched tok replies_payload calls
         = (Inr replies_payload', calls'') \<longleftrightarrow>
       (\<exists>reqs. calls'' = calls @ reqs
          \<and> loop_run up api_key parent_id m fetched tok calls reqs
          \<and> replies_payload' = replies_payload @ fetched_replies up calls reqs))
   \<and> (head_ok item \<and> inline_ok item \<and> reported_count item = JInt k
         \<and> int (length (inline_list item)) < k \<longrightarrow>
       process_item up api_key True m item calls =
         (case reply_loop up api_key (c_id (normal_top item)) m 0 JNull
                 (map normal_reply (inline_list item)) calls of
            (Inl e, calls2) \<Rightarrow> (Inl e, calls2)
          | (Inr replies_payload2, calls2) \<Rightarrow>
              (Inr \<lparr>threadId = field (obj item) ''id'' JNull, topLevelComment = normal_top item,
                    replyCount = JInt k, replies = replies_payload2\<rparr>, calls2)))"
proof (intro conjI impI)
  assume "reply_loop up api_key parent_id m fetched tok replies_payload calls = (res, calls')"
  from reply_loop_trace[OF this]
  show "\<exists>reqs. calls' = calls @ reqs \<and> int (length reqs) \<le> max 0 (m - fetched)"
    by blast
next
  assume "\<not> fetched < m"
  then show "reply_loop up api_key parent_id m fetched tok replies_payload calls
          = (Inr replies_payload, calls)"
    by (rule reply_loop_spent)
next
  assume "fetched < m"
    "batch_ok (up (calls @ [reply_request api_key parent_id (min 100 (m - fetched)) tok]))"
  then show "reply_loop up api_key parent_id m fetched tok replies_payload calls =
          (if m \<le> fetched
                  + int (length (listed (up (calls
                      @ [reply_request api_key parent_id (min 100 (m - fetched)) tok]))))
              \<or> \<not> truthy (continuation (up (calls
                      @ [reply_request api_key parent_id (min 100 (m - fetched)) tok])))
              \<or> listed (up (calls
                      @ [reply_request api_key parent_id (min 100 (m - fetched)) tok])) = []
           then (Inr (replies_payload
                      @ map normal_reply (listed (up (calls
                          @ [reply_request api_key parent_id (min 100 (m - fetched)) tok])))),
                 calls @ [reply_request api_key parent_id (min 100 (m - fetched)) tok])
           else reply_loop up api_key parent_id m
                  (fetched + int (length (listed (up (calls
                      @ [reply_request api_key parent_id (min 100 (m - fetched)) tok])))))
                  (continuation (up (calls
                      @ [reply_request api_key parent_id (min 100 (m - fetched)) tok])))
                  (replies_payload
                      @ map normal_reply (listed (up (calls
                          @ [reply_request api_key parent_id (min 100 (m - fetched)) tok]))))
                  (calls @ [reply_request api_key parent_id (min 100 (m - fetched)) tok]))"
    by (rule reply_loop_step)
next
  assume a: "fetched < m"
    "batch_ok (up (calls @ [reply_request api_key parent_id (min 100 (m - fetched)) tok]))"
    and no_token: "\<not> truthy (continuation (up (calls
              @ [reply_request api_key parent_id (min 100 (m - fetched)) tok])))"
  show "reply_loop up api_key parent_id m fetched tok replies_payload calls =
          (Inr (replies_payload
                @ map normal_reply (listed (up (calls
                    @ [reply_request api_key parent_id (min 100 (m - fetched)) tok])))),
           calls @ [reply_request api_key parent_id (min 100 (m - fetched)) tok])"
    unfolding reply_loop_step[where up=up, OF a] using no_token by simp
next
  show "reply_loop up api_key parent_id m fetched tok replies_payload calls
         = (Inr replies_payload', calls'') \<longleftrightarrow>
       (\<exists>reqs. calls'' = calls @ reqs
          \<and> loop_run up api_key parent_id m fetched tok calls reqs
          \<and> replies_payload' = replies_payload @ fetched_replies up calls reqs)"
    by (rule reply_loop_iff)
next
  assume "head_ok item \<and> inline_ok item \<and> reported_count item = JInt k
         \<and> int (length (inline_list item)) < k"
  then show "process_item up api_key True m item calls =
         (case reply_loop up api_key (c_id (normal_top item)) m 0 JNull
                 (map normal_reply (inline_list item)) calls of
            (Inl e, calls2) \<Rightarrow> (Inl e, calls2)
          | (Inr replies_payload2, calls2) \<Rightarrow>
              (Inr \<lparr>threadId = field (obj item) ''id'' JNull, topLevelComment = normal_top item,
                    replyCount = JInt k, replies = replies_payload2\<rparr>, calls2))"
    by (intro process_item_enters_loop) simp_all
qed

lemma demo_loop_run:
  "loop_run (demo_upstream 5 0 2) ''k'' (JStr ''c1'') 20 0 JNull []
     [reply_request ''k'' (JStr ''c1'') 20 JNull,
      reply_request ''k'' (JStr ''c1'') 18 (JStr ''more''),
      reply_request ''k'' (JStr ''c1'') 16 (JStr ''more'')]"
  "fetched_replies (demo_upstream 5 0 2) []
     [reply_request ''k'' (JStr ''c1'') 20 JNull,
      reply_request ''k'' (JStr ''c1'') 18 (JStr ''more''),
      reply_request ''k'' (JStr ''c1'') 16 (JStr ''more'')]
     = map demo_comment [0..<5]"
  by code_simp+

lemma demo_last_batch:
  "(0::int) < 20"
  "batch_ok (demo_upstream 1 0 5 ([] @ [reply_request ''k'' (JStr ''c1'') (min 100 (20 - 0)) JNull]))"
  "\<not> truthy (continuation (demo_upstream 1 0 5
        ([] @ [reply_request ''k'' (JStr ''c1'') (min 100 (20 - 0)) JNull])))"
  "listed (demo_upstream 1 0 5 ([] @ [reply_request ''k'' (JStr ''c1'') (min 100 (20 - 0)) JNull]))
     = [demo_reply 0]"
  "normal_reply (demo_reply 0) = demo_comment 0"
  "0 + int (length [demo_reply 0]) < 20"
  by code_simp+

theorem reply_loop_terminates_witness:
  "loop_run (demo_upstream 5 0 2) ''k'' (JStr ''c1'') 20 0 JNull []
     [reply_request ''k'' (JStr ''c1'') 20 JNull,
      reply_request ''k'' (JStr ''c1'') 18 (JStr ''more''),
      reply_request ''k'' (JStr ''c1'') 16 (JStr ''more'')]
   \<and> reply_loop (demo_upstream 5 0 2) ''k'' (JStr ''c1'') 20 0 JNull [] []
       = (Inr ([] @ map demo_comment [0..<5]),
          [] @ [reply_request ''k'' (JStr ''c1'') 20 JNull,
                reply_request ''k'' (JStr ''c1'') 18 (JStr ''more''),
                reply_request ''k'' (JStr ''c1'') 16 (JStr ''more'')])
   \<and> int (length [reply_request ''k'' (JStr ''c1'') 20 JNull,
                   reply_request ''k'' (JStr ''c1'') 18 (JStr ''more''),
                   reply_request ''k'' (JStr ''c1'') 16 (JStr ''more'')]) \<le> max 0 (20 - 0)
   \<and> (0::int) < 20
   \<and> batch_ok (demo_upstream 1 0 5
        ([] @ [reply_request ''k'' (JStr ''c1'') (min 100 (20 - 0)) JNull]))
   \<and> \<not> truthy (continuation (demo_upstream 1 0 5
        ([] @ [reply_request ''k'' (JStr ''c1'') (min 100 (20 - 0)) JNull])))
   \<and> listed (demo_upstream 1 0 5
        ([] @ [reply_request ''k'' (JStr ''c1'') (min 100 (20 - 0)) JNull])) = [demo_reply 0]
   \<and> 0 + int (length [demo_reply 0]) < 20
   \<and> reply_loop (demo_upstream 1 0 5) ''k'' (JStr ''c1'') 20 0 JNull [] []
       = (Inr ([] @ map normal_reply [demo_reply 0]),
          [] @ [reply_request ''k'' (JStr ''c1'') (min 100 (20 - 0)) JNull])"
proof -
  let ?reqs = "[reply_request ''k'' (JStr ''c1'') 20 JNull,
                reply_request ''k'' (JStr ''c1'') 18 (JStr ''more''),
                reply_request ''k'' (JStr ''c1'') 16 (JStr ''more'')]"
  have "\<exists>reqs. [] @ ?reqs = [] @ reqs
      \<and> loop_run (demo_upstream 5 0 2) ''k'' (JStr ''c1'') 20 0 JNull [] reqs
      \<and> [] @ map demo_comment [0..<5] = [] @ fetched_replies (demo_upstream 5 0 2) [] reqs"
    apply (rule exI[of _ ?reqs])
    apply (intro conjI)
      apply (rule refl)
     apply (rule demo_loop_run(1))
    apply (simp only: demo_loop_run(2))
    done
  with reply_loop_terminates[where up="demo_upstream 5 0 2" and api_key="''k''"
      and parent_id="JStr ''c1''" and m=20 and fetched=0 and tok=JNull and replies_payload="[]"
      and calls="[]" and replies_payload'="[] @ map demo_comment [0..<5]"
      and calls''="[] @ ?reqs",
      THEN conjunct2, THEN conjunct2, THEN conjunct2, THEN conjunct2, THEN conjunct1]
  have run: "reply_loop (demo_upstream 5 0 2) ''k'' (JStr ''c1'') 20 0 JNull [] []
       = (Inr ([] @ map demo_comment [0..<5]), [] @ ?reqs)"
    by (rule iffD2)
  from reply_loop_terminates[where up="demo_upstream 5 0 2" and api_key="''k''"
      and parent_id="JStr ''c1''" and m=20 and fetched=0 and tok=JNull and replies_payload="[]"
      and calls="[]", THEN conjunct1, THEN mp, OF run]
  have bound: "int (length ?reqs) \<le> max 0 (20 - 0)"
    by auto
  from reply_loop_terminates[where up="demo_upstream 1 0 5" and api_key="''k''"
      and parent_id="JStr ''c1''" and m=20 and fetched=0 and tok=JNull and replies_payload="[]"
      and calls="[]",
      THEN conjunct2, THEN conjunct2, THEN conjunct2, THEN conjunct1, THEN mp, THEN mp, THEN mp,
      OF demo_last_batch(1,2,3)]
  have last: "reply_loop (demo_upstream 1 0 5) ''k'' (JStr ''c1'') 20 0 JNull [] []
       = (Inr ([] @ map normal_reply [demo_reply 0]),
          [] @ [reply_request ''k'' (JStr ''c1'') (min 100 (20 - 0)) JNull])"
    unfolding demo_last_batch(4) .
  from demo_loop_run(1) run bound demo_last_batch last
  show ?thesis
    by (intro conjI) (simp_all only: simp_thms)
qed

text \<open>
  C4, as the spec states it, counts the inline replies in the accumulated reply count,
  and then fails. A thread reports 50 replies and has 5 inline; the budget is 20 and the
  upstream lists at most 15 replies at a time. After the first batch the thread holds
  5 + 15 = 20 replies, the response had a continuation token and the batch was not empty,
  yet the loop goes on: it asks for 5 more, and the thread ends with 25 replies.
\<close>

theorem loop_continues_at_budget_counterexample:
  "fetch_comment_threads (demo_upstream 50 5 15) ''v'' ''k'' 20 None ''relevance'' True 20 []
     = (Inr \<lparr>videoId = ''v'', nextPageToken = JNull,
              threads = [\<lparr>threadId = JStr ''t1'', topLevelComment = demo_top,
                          replyCount = JInt 50,
                          replies = map demo_comment ([0..<5] @ [0..<20])\<rparr>]\<rparr>,
        [thread_request ''v'' ''k'' 20 None ''relevance'',
         reply_request ''k'' (JStr ''c1'') 20 JNull,
         reply_request ''k'' (JStr ''c1'') 5 (JStr ''more'')])
   \<and> length (inline_list (demo_thread 50 5)) = 5
   \<and> length (listed (demo_upstream 50 5 15
        [thread_request ''v'' ''k'' 20 None ''relevance'',
         reply_request ''k'' (JStr ''c1'') 20 JNull])) = 15
   \<and> int (length (inline_list (demo_thread 50 5)))
       + int (length (listed (demo_upstream 50 5 15
           [thread_request ''v'' ''k'' 20 None ''relevance'',
            reply_request ''k'' (JStr ''c1'') 20 JNull]))) = 20
   \<and> length [thread_request ''v'' ''k'' 20 None ''relevance'',
         reply_request ''k'' (JStr ''c1'') 20 JNull,
         reply_request ''k'' (JStr ''c1'') 5 (JStr ''more'')] = 3
   \<and> length (map demo_comment ([0..<5] @ [0..<20])) = 25"
  by code_simp


section \<open>Thread Aggregator: missing fields\<close>

text \<open>
  C9. Take any thread-listing response that is a dictionary with a list of thread items,
  where every field that is present has the expected shape (a dictionary where the code
  reads a dictionary, a list of replies where it reads the inline comments, a number or
  a falsy value as reply count), and let every reply-listing response be a dictionary
  whose items are replies of the expected shape. Then \<open>fetch_comment_threads\<close> returns a
  page and raises nothing, whatever fields are missing; each thread of the page has the
  id, the normalised top-level comment and the reply count read off its item with the
  defaults for what is missing, and its replies are the inline replies followed by the
  replies of the reply-listing responses to calls of this run, all normalised with the
  same defaults. The defaults: a missing \<open>likeCount\<close> is 0 and a missing author channel id
  is null, for replies and for top-level comments; a missing \<open>totalReplyCount\<close> is 0; a
  missing dictionary is read as an empty one; missing inline replies are none; and a
  missing field never breaks the expected shape.
\<close>

theorem missing_fields_defaulted:
  "(up (calls @ [thread_request video_id api_key max_results page_token order])
      = Inr (JObj data) \<longrightarrow>
    py_iter (field data ''items'' (JArr [])) = Inr items \<longrightarrow>
    list_all (\<lambda>item. head_ok item \<and> inline_ok item \<and> count_ok (reported_count item)) items \<longrightarrow>
    (\<forall>hist. hist \<noteq> [] \<longrightarrow> endpoint (last hist) = YOUTUBE_API_BASE @ ''/comments''
       \<longrightarrow> batch_ok (up hist)) \<longrightarrow>
    (\<exists>ts calls'.
       fetch_comment_threads up video_id api_key max_results page_token order include_replies m
         calls =
       (Inr \<lparr>videoId = video_id, nextPageToken = field data ''nextPageToken'' JNull,
             threads = ts\<rparr>, calls')
       \<and> list_all2 (\<lambda>t item. threadId t = field (obj item) ''id'' JNull
             \<and> topLevelComment t = normal_top item
             \<and> replyCount t = reported_count item
             \<and> (\<exists>pre seg post.
                   calls' = calls @ thread_request video_id api_key max_results page_token order
                              # pre @ seg @ post
                   \<and> replies t = map normal_reply (inline_list item)
                        @ fetched_replies up
                            (calls @ thread_request video_id api_key max_results page_token order
                               # pre) seg)) ts items))
   \<and> (map_of (obj (sub r ''snippet'')) ''likeCount'' = None \<longrightarrow>
        likeCount (normal_reply r) = JInt 0)
   \<and> (map_of (obj (sub r ''snippet'')) ''authorChannelId'' = None \<longrightarrow>
        authorChannelId (normal_reply r) = JNull \<and> is_obj (channel (sub r ''snippet'')))
   \<and> (map_of (obj (sub (sub (sub item ''snippet'') ''topLevelComment'') ''snippet''))
          ''likeCount'' = None \<longrightarrow>
        likeCount (normal_top item) = JInt 0)
   \<and> (map_of (obj (sub (sub (sub item ''snippet'') ''topLevelComment'') ''snippet''))
          ''authorChannelId'' = None \<longrightarrow>
        authorChannelId (normal_top item) = JNull
        \<and> is_obj (channel (sub (sub (sub item ''snippet'') ''topLevelComment'') ''snippet'')))
   \<and> (map_of (obj (sub item ''snippet'')) ''totalReplyCount'' = None \<longrightarrow>
        reported_count item = JInt 0 \<and> count_ok (reported_count item))
   \<and> (map_of (obj j) key = None \<longrightarrow> sub j key = JObj [] \<and> is_obj (sub j key))
   \<and> (is_obj item \<and> map_of (obj item) ''replies'' = None \<longrightarrow>
        inline_list item = [] \<and> inline_ok item)
   \<and> (is_obj r \<and> map_of (obj r) ''snippet'' = None \<longrightarrow>
        reply_ok r \<and> normal_reply r = blank_comment (field (obj r) ''id'' JNull) True)
   \<and> (is_obj item \<and> map_of (obj item) ''snippet'' = None \<longrightarrow>
        head_ok item \<and> normal_top item = blank_comment JNull False
        \<and> reported_count item = JInt 0)"
proof (intro conjI impI)
  assume listing: "up (calls @ [thread_request video_id api_key max_results page_token order])
      = Inr (JObj data)"
    and items: "py_iter (field data ''items'' (JArr [])) = Inr items"
    and shapes: "list_all (\<lambda>item. head_ok item \<and> inline_ok item \<and> count_ok (reported_count item))
      items"
    and all: "\<forall>hist. hist \<noteq> [] \<longrightarrow> endpoint (last hist) = YOUTUBE_API_BASE @ ''/comments''
       \<longrightarrow> batch_ok (up hist)"
  show "\<exists>ts calls'.
       fetch_comment_threads up video_id api_key max_results page_token order include_replies m
         calls =
       (Inr \<lparr>videoId = video_id, nextPageToken = field data ''nextPageToken'' JNull,
             threads = ts\<rparr>, calls')
       \<and> list_all2 (\<lambda>t item. threadId t = field (obj item) ''id'' JNull
             \<and> topLevelComment t = normal_top item
             \<and> replyCount t = reported_count item
             \<and> (\<exists>pre seg post.
                   calls' = calls @ thread_request video_id api_key max_results page_token order
                              # pre @ seg @ post
                   \<and> replies t = map normal_reply (inline_list item)
                        @ fetched_replies up
                            (calls @ thread_request video_id api_key max_results page_token order
                               # pre) seg)) ts items"
    by (rule fetch_total[OF all listing items shapes])
next
  assume "map_of (obj (sub r ''snippet'')) ''likeCount'' = None"
  then show "likeCount (normal_reply r) = JInt 0"
    by (simp add: normal_reply_def comment_of_def field_missing)
next
  assume a: "map_of (obj (sub r ''snippet'')) ''authorChannelId'' = None"
  then show "authorChannelId (normal_reply r) = JNull"
    by (simp add: normal_reply_def comment_of_def channel_def field_missing py_or_def obj_def
        field_def)
  from a show "is_obj (channel (sub r ''snippet''))"
    by (simp add: channel_def field_missing py_or_def is_obj_def)
next
  assume "map_of (obj (sub (sub (sub item ''snippet'') ''topLevelComment'') ''snippet''))
          ''likeCount'' = None"
  then show "likeCount (normal_top item) = JInt 0"
    by (simp add: normal_top_def comment_of_def field_missing)
next
  assume a: "map_of (obj (sub (sub (sub item ''snippet'') ''topLevelComment'') ''snippet''))
          ''authorChannelId'' = None"
  then show "authorChannelId (normal_top item) = JNull"
    by (simp add: normal_top_def comment_of_def channel_def field_missing py_or_def obj_def
        field_def)
  from a show "is_obj (channel (sub (sub (sub item ''snippet'') ''topLevelComment'') ''snippet''))"
    by (simp add: channel_def field_missing py_or_def is_obj_def)
next
  assume a: "map_of (obj (sub item ''snippet'')) ''totalReplyCount'' = None"
  then show "reported_count item = JInt 0"
    by (simp add: reported_count_def field_missing)
  then show "count_ok (reported_count item)"
    by (simp add: count_ok_def)
next
  assume a: "map_of (obj j) key = None"
  then show "sub j key = JObj []"
    by (simp add: sub_def field_missing)
  then show "is_obj (sub j key)"
    by (simp add: is_obj_def)
next
  assume a: "is_obj item \<and> map_of (obj item) ''replies'' = None"
  then show "inline_list item = []"
    by (simp add: inline_list_def inline_value_def field_missing py_or_def obj_def field_def)
  from a show "inline_ok item"
    by (simp add: inline_ok_def inline_value_def field_missing py_or_def obj_def field_def
        is_obj_def)
next
  assume a: "is_obj r \<and> map_of (obj r) ''snippet'' = None"
  then have s: "sub r ''snippet'' = JObj []"
    by (simp add: sub_def field_missing)
  from a s show "reply_ok r"
    by (simp add: reply_ok_def channel_def py_or_def obj_def field_def is_obj_def)
  from s show "normal_reply r = blank_comment (field (obj r) ''id'' JNull) True"
    by (simp add: normal_reply_def comment_of_def blank_comment_def channel_def py_or_def
        obj_def field_def)
next
  assume a: "is_obj item \<and> map_of (obj item) ''snippet'' = None"
  then have s: "sub item ''snippet'' = JObj []"
    by (simp add: sub_def field_missing)
  from a s show "head_ok item"
    by (simp add: head_ok_def sub_def channel_def py_or_def obj_def field_def is_obj_def)
  from s show "normal_top item = blank_comment JNull False"
    by (simp add: normal_top_def comment_of_def blank_comment_def sub_def channel_def py_or_def
        obj_def field_def)
  from s show "reported_count item = JInt 0"
    by (simp add: reported_count_def obj_def field_def)
qed

lemma sparse_upstream_batches:
  "\<forall>hist. hist \<noteq> [] \<longrightarrow> endpoint (last hist) = YOUTUBE_API_BASE @ ''/comments''
     \<longrightarrow> batch_ok (sparse_upstream hist)"
proof (intro allI impI)
  fix hist :: "request list"
  assume "hist \<noteq> []" "endpoint (last hist) = YOUTUBE_API_BASE @ ''/comments''"
  moreover have "batch_ok (Inr (JObj [(''items'', JArr [JObj [(''id'', JStr ''r1'')], JObj []])]))"
    by code_simp
  ultimately show "batch_ok (sparse_upstream hist)"
    by (simp only: sparse_upstream_def simp_thms if_True)
qed

lemma sparse_listing:
  "sparse_upstream ([] @ [thread_request ''v'' ''k'' 20 None ''relevance''])
     = Inr (JObj [(''items'',
              JArr [JObj [(''snippet'', JObj [(''totalReplyCount'', JInt 3)])], JObj []])])"
  "py_iter (field [(''items'',
              JArr [JObj [(''snippet'', JObj [(''totalReplyCount'', JInt 3)])], JObj []])]
            ''items'' (JArr []))
     = Inr [JObj [(''snippet'', JObj [(''totalReplyCount'', JInt 3)])], JObj []]"
  "list_all (\<lambda>item. head_ok item \<and> inline_ok item \<and> count_ok (reported_count item))
     [JObj [(''snippet'', JObj [(''totalReplyCount'', JInt 3)])], JObj []]"
  "batch_ok (sparse_upstream [thread_request ''v'' ''k'' 20 None ''relevance'',
                               reply_request ''k'' JNull 20 JNull])"
  by code_simp+

lemma sparse_run:
  "fetch_comment_threads sparse_upstream ''v'' ''k'' 20 None ''relevance'' True 20 []
     = (Inr \<lparr>videoId = ''v'', nextPageToken = JNull,
              threads = [\<lparr>threadId = JNull, topLevelComment = blank_comment JNull False,
                          replyCount = JInt 3,
                          replies = [blank_comment (JStr ''r1'') True,
                                     blank_comment JNull True]\<rparr>,
                         \<lparr>threadId = JNull, topLevelComment = blank_comment JNull False,
                          replyCount = JInt 0, replies = []\<rparr>]\<rparr>,
        [thread_request ''v'' ''k'' 20 None ''relevance'', reply_request ''k'' JNull 20 JNull])"
  "likeCount (blank_comment (JStr ''r1'') True) = JInt 0"
  "authorChannelId (blank_comment (JStr ''r1'') True) = JNull"
  "likeCount (blank_comment JNull False) = JInt 0"
  "authorChannelId (blank_comment JNull False) = JNull"
  by code_simp+

theorem missing_fields_defaulted_witness:
  "sparse_upstream ([] @ [thread_request ''v'' ''k'' 20 None ''relevance''])
     = Inr (JObj [(''items'',
              JArr [JObj [(''snippet'', JObj [(''totalReplyCount'', JInt 3)])], JObj []])])
   \<and> py_iter (field [(''items'',
              JArr [JObj [(''snippet'', JObj [(''totalReplyCount'', JInt 3)])], JObj []])]
            ''items'' (JArr []))
       = Inr [JObj [(''snippet'', JObj [(''totalReplyCount'', JInt 3)])], JObj []]
   \<and> list_all (\<lambda>item. head_ok item \<and> inline_ok item \<and> count_ok (reported_count item))
        [JObj [(''snippet'', JObj [(''totalReplyCount'', JInt 3)])], JObj []]
   \<and> batch_ok (sparse_upstream [thread_request ''v'' ''k'' 20 None ''relevance'',
                                  reply_request ''k'' JNull 20 JNull])
   \<and> (\<exists>ts calls'.
        fetch_comment_threads sparse_upstream ''v'' ''k'' 20 None ''relevance'' True 20 []
          = (Inr \<lparr>videoId = ''v'',
                   nextPageToken = field [(''items'',
                       JArr [JObj [(''snippet'', JObj [(''totalReplyCount'', JInt 3)])], JObj []])]
                     ''nextPageToken'' JNull,
                   threads = ts\<rparr>, calls'))
   \<and> fetch_comment_threads sparse_upstream ''v'' ''k'' 20 None ''relevance'' True 20 []
       = (Inr \<lparr>videoId = ''v'', nextPageToken = JNull,
                threads = [\<lparr>threadId = JNull, topLevelComment = blank_comment JNull False,
                            replyCount = JInt 3,
                            replies = [blank_comment (JStr ''r1'') True,
                                       blank_comment JNull True]\<rparr>,
                           \<lparr>threadId = JNull, topLevelComment = blank_comment JNull False,
                            replyCount = JInt 0, replies = []\<rparr>]\<rparr>,
          [thread_request ''v'' ''k'' 20 None ''relevance'', reply_request ''k'' JNull 20 JNull])
   \<and> likeCount (blank_comment (JStr ''r1'') True) = JInt 0
   \<and> authorChannelId (blank_comment (JStr ''r1'') True) = JNull
   \<and> likeCount (blank_comment JNull False) = JInt 0
   \<and> authorChannelId (blank_comment JNull False) = JNull"
proof -
  from missing_fields_defaulted[where up=sparse_upstream and calls="[]" and video_id="''v''"
      and api_key="''k''" and max_results=20 and page_token=None and order="''relevance''"
      and include_replies=True and m=20,
      THEN conjunct1, THEN mp, THEN mp, THEN mp, THEN mp,
      OF sparse_listing(1,2,3) sparse_upstream_batches]
  have "\<exists>ts calls'.
        fetch_comment_threads sparse_upstream ''v'' ''k'' 20 None ''relevance'' True 20 []
          = (Inr \<lparr>videoId = ''v'',
                   nextPageToken = field [(''items'',
                       JArr [JObj [(''snippet'', JObj [(''totalReplyCount'', JInt 3)])], JObj []])]
                     ''nextPageToken'' JNull,
                   threads = ts\<rparr>, calls')"
    by (elim exE conjE) (simp only: append_Nil, blast)
  with sparse_listing sparse_run show ?thesis
    by (intro conjI) (simp_all only: simp_thms)
qed


section \<open>Request Handler: a request without an identifier\<close>

text \<open>
  C8, as the code has it. \<open>do_GET\<close> reads the whole query first. When the query is read
  (the path parses, and \<open>maxResults\<close> and \<open>maxRepliesPerThread\<close> are missing or integers) and
  it gives no \<open>videoId\<close> and no \<open>url\<close> an identifier can be extracted from, the response is
  400 with the error message, and no upstream call is made. When reading the query
  raises, the response is 500 with an error and the exception's details, and no upstream
  call is made either.
\<close>

theorem missing_identifier_rejected:
  "(parse_query lib request_path = Inr q \<longrightarrow> q_videoId q = [] \<longrightarrow>
      (q_url q = [] \<or> extract_video_id_from_url lib (q_url q) = None
         \<or> extract_video_id_from_url lib (q_url q) = Some []) \<longrightarrow>
      do_GET lib environ up request_path =
        (\<lparr>status = 400,
          body = ErrorBody ''Missing 'videoId' or parsable 'url' query param.''\<rparr>, []))
   \<and> (parse_query lib request_path = Inl ex \<longrightarrow>
        do_GET lib environ up request_path =
          (\<lparr>status = 500, body = ErrorDetails ''Internal server error'' ex\<rparr>, []))"
  by (auto simp: do_GET_def Let_def)

lemma demo_query_no_id:
  "parse_query plain_lib ''/api/comments?url=https://example.com/&order=time''
     = Inr \<lparr>q_url = ''https://example.com/'', q_videoId = [], q_pageToken = None,
            q_order = Some ''time'', q_includeReplies = False, q_maxResults = None,
            q_maxRepliesPerThread = 20\<rparr>"
  "extract_video_id_from_url plain_lib ''https://example.com/'' = None"
  "parse_query plain_lib ''/api/comments?maxRepliesPerThread=many'' = Inl ValueError"
  by code_simp+

theorem missing_identifier_rejected_witness:
  "do_GET plain_lib no_environ offline ''/api/comments?url=https://example.com/&order=time'' =
     (\<lparr>status = 400,
       body = ErrorBody ''Missing 'videoId' or parsable 'url' query param.''\<rparr>, [])
   \<and> do_GET plain_lib no_environ offline ''/api/comments?maxRepliesPerThread=many'' =
     (\<lparr>status = 500, body = ErrorDetails ''Internal server error'' ValueError\<rparr>, [])"
  using missing_identifier_rejected[of plain_lib
      "''/api/comments?url=https://example.com/&order=time''" _ no_environ offline]
    missing_identifier_rejected[of plain_lib "''/api/comments?maxRepliesPerThread=many''" _
      no_environ offline ValueError]
    demo_query_no_id
  by simp

text \<open>
  C8, as the spec states it, fails on a request with no identifier and a \<open>maxResults\<close> that
  is not an integer: \<open>int\<close> raises inside \<open>_parse_query\<close>, before the identifier is looked
  at, and the response is 500.
\<close>

theorem bad_integer_counterexample:
  "get_one (parse_qs plain_lib ''maxResults=abc'') ''videoId'' = []
   \<and> get_one (parse_qs plain_lib ''maxResults=abc'') ''url'' = []
   \<and> do_GET plain_lib no_environ offline ''/api/comments?maxResults=abc'' =
     (\<lparr>status = 500, body = ErrorDetails ''Internal server error'' ValueError\<rparr>, [])
   \<and> status (fst (do_GET plain_lib no_environ offline ''/api/comments?maxResults=abc'')) \<noteq> 400"
  by code_simp

end
